theory Spec2Isabelle
  imports Complex_Main "HOL-Library.Word" "HOL-Library.List_Lexorder" "HOL-Library.AList"
    "HOL-Library.Log_Nat"
begin

section \<open>JavaScript strings and the Buffer conversions the code relies on\<close>

text \<open>
  A JavaScript string is a sequence of UTF-16 code units; \<open>s.length\<close> counts them
  and the default \<open>Array.prototype.sort\<close> compares strings code unit by code unit.
  A Buffer is a sequence of bytes.
\<close>

type_synonym jsstring = "16 word list"
type_synonym byte = "8 word"

text \<open>The code unit and the byte with a given value.\<close>

definition unit_of :: "nat \<Rightarrow> 16 word" where
  "unit_of n = of_nat n"

definition byte_of :: "nat \<Rightarrow> byte" where
  "byte_of n = of_nat n"

text \<open>An ASCII literal of the source, as code units.\<close>

definition lit :: "string \<Rightarrow> jsstring" where
  "lit s = map (\<lambda>c. unit_of (of_char c)) s"

subsection \<open>\<open>Buffer.from(s)\<close>: UTF-8 encoding of a string\<close>

definition is_high :: "16 word \<Rightarrow> bool" where
  "is_high u = (0xD800 \<le> unat u \<and> unat u \<le> 0xDBFF)"

definition is_low :: "16 word \<Rightarrow> bool" where
  "is_low u = (0xDC00 \<le> unat u \<and> unat u \<le> 0xDFFF)"

text \<open>
  The code points of a string. A high surrogate followed by a low surrogate is one
  supplementary code point; a surrogate without its partner is encoded by Buffer as
  U+FFFD, the replacement character.
\<close>

fun code_points :: "jsstring \<Rightarrow> nat list" where
  "code_points [] = []"
| "code_points [u] = [if is_high u \<or> is_low u then 0xFFFD else unat u]"
| "code_points (u # l # us) =
     (if is_high u \<and> is_low l
      then (0x10000 + (unat u - 0xD800) * 0x400 + (unat l - 0xDC00)) # code_points us
      else (if is_high u \<or> is_low u then 0xFFFD else unat u) # code_points (l # us))"

definition utf8_bytes :: "nat \<Rightarrow> byte list" where
  "utf8_bytes c =
     (if c < 0x80 then [byte_of c]
      else if c < 0x800 then [byte_of (0xC0 + c div 0x40), byte_of (0x80 + c mod 0x40)]
      else if c < 0x10000 then
        [byte_of (0xE0 + c div 0x1000), byte_of (0x80 + c div 0x40 mod 0x40),
         byte_of (0x80 + c mod 0x40)]
      else
        [byte_of (0xF0 + c div 0x40000), byte_of (0x80 + c div 0x1000 mod 0x40),
         byte_of (0x80 + c div 0x40 mod 0x40), byte_of (0x80 + c mod 0x40)])"

definition utf8_encode :: "jsstring \<Rightarrow> byte list" where
  "utf8_encode s = concat (map utf8_bytes (code_points s))"

subsection \<open>\<open>buf.toString()\<close>: UTF-8 decoding of bytes\<close>

text \<open>
  The decoder is the state machine of the Encoding standard: the state is the code
  point collected so far, the number of continuation bytes still needed, and the
  bounds the next continuation byte must lie in. A byte that cannot continue the
  sequence yields U+FFFD and is then read again as the start of a sequence; an
  unfinished sequence at the end of the input yields U+FFFD.
\<close>

type_synonym utf8_state = "nat \<times> nat \<times> nat \<times> nat"

definition utf8_idle :: utf8_state where
  "utf8_idle = (0, 0, 0x80, 0xBF)"

definition utf8_start :: "nat \<Rightarrow> nat list \<times> utf8_state" where
  "utf8_start x =
     (if x < 0x80 then ([x], utf8_idle)
      else if 0xC2 \<le> x \<and> x \<le> 0xDF then ([], (x mod 0x20, 1, 0x80, 0xBF))
      else if 0xE0 \<le> x \<and> x \<le> 0xEF then
        ([], (x mod 0x10, 2, if x = 0xE0 then 0xA0 else 0x80, if x = 0xED then 0x9F else 0xBF))
      else if 0xF0 \<le> x \<and> x \<le> 0xF4 then
        ([], (x mod 0x08, 3, if x = 0xF0 then 0x90 else 0x80, if x = 0xF4 then 0x8F else 0xBF))
      else ([0xFFFD], utf8_idle))"

definition utf8_step :: "utf8_state \<Rightarrow> nat \<Rightarrow> nat list \<times> utf8_state" where
  "utf8_step st x =
     (case st of (cp, need, lo, hi) \<Rightarrow>
        if need = 0 then utf8_start x
        else if x < lo \<or> hi < x then
          (case utf8_start x of (out, st') \<Rightarrow> (0xFFFD # out, st'))
        else if need = 1 then ([cp * 0x40 + x mod 0x40], utf8_idle)
        else ([], (cp * 0x40 + x mod 0x40, need - 1, 0x80, 0xBF)))"

fun utf8_run :: "utf8_state \<Rightarrow> byte list \<Rightarrow> nat list" where
  "utf8_run st [] = (if fst (snd st) = 0 then [] else [0xFFFD])"
| "utf8_run st (b # bs) =
     (case utf8_step st (unat b) of (out, st') \<Rightarrow> out @ utf8_run st' bs)"

definition utf16_units :: "nat \<Rightarrow> jsstring" where
  "utf16_units c =
     (if c < 0x10000 then [unit_of c]
      else [unit_of (0xD800 + (c - 0x10000) div 0x400),
            unit_of (0xDC00 + (c - 0x10000) mod 0x400)])"

definition utf8_decode :: "byte list \<Rightarrow> jsstring" where
  "utf8_decode bs = concat (map utf16_units (utf8_run utf8_idle bs))"

subsection \<open>Base64: \<open>buf.toString("base64")\<close> and \<open>Buffer.from(s, "base64")\<close>\<close>

definition b64_char :: "nat \<Rightarrow> 16 word" where
  "b64_char n =
     (if n < 26 then unit_of (65 + n)
      else if n < 52 then unit_of (71 + n)
      else if n < 62 then unit_of (n - 4)
      else if n = 62 then unit_of 43 else unit_of 47)"

fun base64_encode :: "byte list \<Rightarrow> jsstring" where
  "base64_encode [] = []"
| "base64_encode [a] =
     [b64_char (unat a div 4), b64_char (unat a mod 4 * 16), unit_of 61, unit_of 61]"
| "base64_encode [a, b] =
     [b64_char (unat a div 4), b64_char (unat a mod 4 * 16 + unat b div 16),
      b64_char (unat b mod 16 * 4), unit_of 61]"
| "base64_encode (a # b # c # bs) =
     [b64_char (unat a div 4), b64_char (unat a mod 4 * 16 + unat b div 16),
      b64_char (unat b mod 16 * 4 + unat c div 64), b64_char (unat c mod 64)]
     @ base64_encode bs"

text \<open>
  Decoding reads the low byte of each code unit. It accepts the standard and the
  URL-safe alphabet, skips every other character and stops at the first \<open>=\<close>
  (byte 61); a final group of two or three characters gives one or two bytes.
\<close>

definition low_byte :: "16 word \<Rightarrow> nat" where
  "low_byte u = unat u mod 256"

definition unbase64 :: "16 word \<Rightarrow> nat option" where
  "unbase64 u =
     (let x = low_byte u in
      if 65 \<le> x \<and> x \<le> 90 then Some (x - 65)
      else if 97 \<le> x \<and> x \<le> 122 then Some (x - 71)
      else if 48 \<le> x \<and> x \<le> 57 then Some (x + 4)
      else if x = 43 \<or> x = 45 then Some 62
      else if x = 47 \<or> x = 95 then Some 63
      else None)"

fun sextets :: "jsstring \<Rightarrow> nat list" where
  "sextets [] = []"
| "sextets (c # cs) =
     (if low_byte c = 61 then []
      else case unbase64 c of None \<Rightarrow> sextets cs | Some v \<Rightarrow> v # sextets cs)"

fun from_sextets :: "nat list \<Rightarrow> byte list" where
  "from_sextets (a # b # c # d # r) =
     [byte_of (a * 4 + b div 16), byte_of (b mod 16 * 16 + c div 4), byte_of (c mod 4 * 64 + d)]
     @ from_sextets r"
| "from_sextets [a, b, c] = [byte_of (a * 4 + b div 16), byte_of (b mod 16 * 16 + c div 4)]"
| "from_sextets [a, b] = [byte_of (a * 4 + b div 16)]"
| "from_sextets _ = []"

definition base64_decode :: "jsstring \<Rightarrow> byte list" where
  "base64_decode s = from_sextets (sextets s)"

text \<open>\<open>Buffer.from(s).toString("base64")\<close> and \<open>Buffer.from(s, "base64").toString()\<close>.\<close>

definition to_base64 :: "jsstring \<Rightarrow> jsstring" where
  "to_base64 s = base64_encode (utf8_encode s)"

definition from_base64 :: "jsstring \<Rightarrow> jsstring" where
  "from_base64 s = utf8_decode (base64_decode s)"

text \<open>
  A string is well formed when every surrogate code unit is half of a pair: a high
  surrogate directly followed by a low one.
\<close>

fun well_formed :: "jsstring \<Rightarrow> bool" where
  "well_formed [] = True"
| "well_formed [u] = (\<not> is_high u \<and> \<not> is_low u)"
| "well_formed (u # l # us) =
     (if is_high u then is_low l \<and> well_formed us
      else \<not> is_low u \<and> well_formed (l # us))"

text \<open>Unicode scalar values: the code points that are not surrogates.\<close>

definition scalar :: "nat \<Rightarrow> bool" where
  "scalar c = (c < 0x110000 \<and> \<not> (0xD800 \<le> c \<and> c \<le> 0xDFFF))"

text \<open>
  What a rejected promise or a thrown exception carries: a \<open>TypeError\<close> of the
  runtime, or \<open>new Error(message)\<close>.
\<close>

datatype js_error = TypeError | Error jsstring

text \<open>
  \<open>`${x}`\<close> for a value typed \<open>string\<close> that is \<open>undefined\<close> at run time (an
  index past the end of an array): the template prints \<open>undefined\<close>.
\<close>

definition template :: "jsstring option \<Rightarrow> jsstring" where
  "template x = (case x of None \<Rightarrow> lit ''undefined'' | Some s \<Rightarrow> s)"

text \<open>\<open>xs[0]\<close>: \<open>undefined\<close> on an empty array.\<close>

definition first :: "'a list \<Rightarrow> 'a option" where
  "first xs = (case xs of [] \<Rightarrow> None | x # _ \<Rightarrow> Some x)"

text \<open>\<open>xs.join(sep)\<close> on an array of strings.\<close>

fun join :: "jsstring \<Rightarrow> jsstring list \<Rightarrow> jsstring" where
  "join sep [] = []"
| "join sep [x] = x"
| "join sep (x # y # ys) = x @ sep @ join sep (y # ys)"

section \<open>JavaScript numbers\<close>

text \<open>
  A JavaScript number is an IEEE 754 double: a real number that the format
  represents, one of the two infinities, or \<open>NaN\<close>. The value of an arithmetic
  operation on finite numbers is the exact result rounded to the nearest double, a
  tie going to the double with the even significand.
\<close>

text \<open>The power of two with an integer exponent, exactly.\<close>

definition pow2 :: "int \<Rightarrow> real" where
  "pow2 n = (if 0 \<le> n then 2 ^ nat n else 1 / 2 ^ nat (- n))"

text \<open>The nearest integer, a tie going to the even one.\<close>

definition round_even :: "real \<Rightarrow> int" where
  "round_even y =
     (let f = \<lfloor>y\<rfloor>; d = y - real_of_int f
      in if d < 1 / 2 then f else if 1 / 2 < d then f + 1 else if even f then f else f + 1)"

text \<open>
  The binary exponent of a positive real \<open>x\<close>: the \<open>e\<close> with
  \<open>2^e \<le> x < 2^(e+1)\<close>, computed from the bit length of the integer part of \<open>x\<close>
  or of \<open>1 / x\<close>.
\<close>

definition expo :: "real \<Rightarrow> int" where
  "expo x =
     (if 1 \<le> x then bitlen \<lfloor>x\<rfloor> - 1 else - bitlen (\<lceil>1 / x\<rceil> - 1))"

text \<open>
  Rounding to a double. The doubles around \<open>x\<close> are the multiples of
  \<open>2^(e - 52)\<close>, where \<open>e\<close> is the exponent of \<open>x\<close>, and below the normal range
  the multiples of \<open>2^(-1074)\<close>. The results the code computes stay far below
  \<open>2^1024\<close>, where a double overflows to \<open>Infinity\<close>; overflow is not part of
  \<open>fl\<close>.
\<close>

definition fl :: "real \<Rightarrow> real" where
  "fl x =
     (if x = 0 then 0
      else let u = pow2 (max (expo \<bar>x\<bar> - 52) (- 1074))
           in sgn x * (real_of_int (round_even (\<bar>x\<bar> / u)) * u))"

datatype js_number = NaN | NegInfinity | Num real | Infinity

text \<open>\<open>a <= b\<close> and \<open>a < b\<close> on numbers: false whenever an operand is \<open>NaN\<close>.\<close>

fun js_le :: "js_number \<Rightarrow> js_number \<Rightarrow> bool" where
  "js_le NaN b = False"
| "js_le a NaN = False"
| "js_le NegInfinity b = True"
| "js_le a Infinity = True"
| "js_le (Num x) (Num y) = (x \<le> y)"
| "js_le a b = False"

fun js_lt :: "js_number \<Rightarrow> js_number \<Rightarrow> bool" where
  "js_lt NaN b = False"
| "js_lt a NaN = False"
| "js_lt (Num x) (Num y) = (x < y)"
| "js_lt Infinity b = False"
| "js_lt a NegInfinity = False"
| "js_lt a b = True"

text \<open>\<open>a + 1\<close> on a number.\<close>

fun js_succ :: "js_number \<Rightarrow> js_number" where
  "js_succ (Num x) = Num (fl (x + 1))"
| "js_succ a = a"

section \<open>crypto.ts\<close>

record KeyPair =
  publicKey :: jsstring
  secretKey :: jsstring

record PreKey =
  keyId :: int
  publicKey :: jsstring
  signature :: jsstring
  createdAt :: int

record OneTimeKey =
  keyId :: int
  publicKey :: jsstring

record DeviceKeys =
  deviceId :: jsstring
  signingKeys :: KeyPair
  agreementKeys :: KeyPair
  preKeys :: "PreKey list"
  oneTimeKeys :: "OneTimeKey list"

record SessionKey =
  sharedSecret :: jsstring
  headerSecret :: jsstring
  chainKey :: jsstring
  messageCounter :: js_number

record EncryptedMessage =
  ciphertext :: jsstring
  nonce :: jsstring
  senderDeviceId :: jsstring
  recipientDeviceId :: jsstring
  timestamp :: int
  messageCounter :: js_number
  headerSecret :: jsstring

text \<open>
  \<open>cryptoUtils.deriveSharedSecret\<close>. The two calls of \<open>Math.random().toString()\<close>
  are the inputs \<open>rnd1\<close> and \<open>rnd2\<close>; \<open>theirOneTimeKey\<close> is \<open>None\<close> when the
  caller passes \<open>undefined\<close>.
\<close>

definition deriveSharedSecret ::
  "jsstring \<Rightarrow> jsstring option \<Rightarrow> jsstring \<Rightarrow> jsstring \<Rightarrow> jsstring \<Rightarrow> SessionKey" where
  "deriveSharedSecret theirSignedPreKey theirOneTimeKey ourAgreementSecretKey rnd1 rnd2 =
     \<lparr>sharedSecret =
        to_base64 (theirSignedPreKey @ template theirOneTimeKey @ ourAgreementSecretKey),
      SessionKey.headerSecret = to_base64 rnd1,
      chainKey = to_base64 rnd2,
      SessionKey.messageCounter = Num 0\<rparr>"

text \<open>
  \<open>cryptoUtils.encryptMessage\<close>; \<open>now\<close> is \<open>Date.now()\<close> and \<open>rnd\<close> is
  \<open>Math.random().toString()\<close>.
\<close>

definition cryptoUtils_encryptMessage ::
  "jsstring \<Rightarrow> SessionKey \<Rightarrow> jsstring \<Rightarrow> jsstring \<Rightarrow> jsstring \<Rightarrow> jsstring \<Rightarrow> int \<Rightarrow> jsstring
    \<Rightarrow> EncryptedMessage" where
  "cryptoUtils_encryptMessage plaintext sessionKey senderId recipientId senderDeviceId'
       recipientDeviceId' now rnd =
     \<lparr>ciphertext = to_base64 plaintext,
      nonce = to_base64 rnd,
      senderDeviceId = senderDeviceId',
      recipientDeviceId = recipientDeviceId',
      timestamp = now,
      EncryptedMessage.messageCounter = js_succ (SessionKey.messageCounter sessionKey),
      EncryptedMessage.headerSecret = SessionKey.headerSecret sessionKey\<rparr>"

text \<open>
  \<open>cryptoUtils.decryptMessage\<close>: the promise it returns is never rejected, so the
  result is always \<open>Inr\<close>.
\<close>

definition cryptoUtils_decryptMessage :: "EncryptedMessage \<Rightarrow> SessionKey \<Rightarrow> js_error + jsstring" where
  "cryptoUtils_decryptMessage message sessionKey = Inr (from_base64 (ciphertext message))"

definition verifySignature :: "jsstring \<Rightarrow> jsstring \<Rightarrow> jsstring \<Rightarrow> bool" where
  "verifySignature message signature' publicKey' = True"

definition signData :: "jsstring \<Rightarrow> jsstring \<Rightarrow> jsstring" where
  "signData data secretKey' = to_base64 (data @ lit '':signed:'' @ secretKey')"

section \<open>session.ts\<close>

record X3DHBundle =
  identityKey :: jsstring
  signedPreKey :: jsstring
  signedPreKeySignature :: jsstring
  oneTimePreKeys :: "jsstring list"
  timestamp :: int

datatype session_phase = Initiated | Established | Rekeying

record X3DHData =
  sharedSecret :: jsstring
  messageCounter :: js_number

record SessionState =
  sessionId :: jsstring
  userId1 :: jsstring
  userId2 :: jsstring
  deviceId1 :: jsstring
  deviceId2 :: jsstring
  sessionKey :: SessionKey
  state :: session_phase
  x3dhData :: X3DHData
  createdAt :: int
  lastUpdated :: int

text \<open>The module's \<open>sessionStore\<close>, a \<open>Map\<close> from session id to session.\<close>

type_synonym sessionStore = "jsstring \<rightharpoonup> SessionState"

text \<open>
  \<open>generateX3DHBundle\<close>: \<open>deviceKeys.preKeys[0]\<close> is \<open>undefined\<close> when there is
  no pre-key, and reading its \<open>publicKey\<close> throws.
\<close>

definition generateX3DHBundle :: "DeviceKeys \<Rightarrow> int \<Rightarrow> js_error + X3DHBundle" where
  "generateX3DHBundle deviceKeys now =
     (case first (preKeys deviceKeys) of
        None \<Rightarrow> Inl TypeError
      | Some preKey \<Rightarrow>
          Inr \<lparr>identityKey = KeyPair.publicKey (signingKeys deviceKeys),
               signedPreKey = PreKey.publicKey preKey,
               signedPreKeySignature = signature preKey,
               oneTimePreKeys = map OneTimeKey.publicKey (oneTimeKeys deviceKeys),
               X3DHBundle.timestamp = now\<rparr>)"

text \<open>The session id: both pairs sorted, so that either party computes the same id.\<close>

definition session_id :: "jsstring \<Rightarrow> jsstring \<Rightarrow> jsstring \<Rightarrow> jsstring \<Rightarrow> jsstring" where
  "session_id userId1' userId2' deviceId1' deviceId2' =
     lit ''session:'' @ join (lit '':'') (sort [userId1', userId2']) @ lit '':''
       @ join (lit '':'') (sort [deviceId1', deviceId2'])"

text \<open>
  \<open>completeHandshake\<close>, on the session store. \<open>rnd1\<close> and \<open>rnd2\<close> are the random
  strings \<open>deriveSharedSecret\<close> draws and \<open>now\<close> is \<open>Date.now()\<close>. The function has
  no \<open>throw\<close> and calls nothing that throws, so the result is always \<open>Inr\<close>: the
  session and the store with the session set under its id.
\<close>

definition completeHandshake ::
  "sessionStore \<Rightarrow> jsstring \<Rightarrow> jsstring \<Rightarrow> jsstring \<Rightarrow> jsstring \<Rightarrow> DeviceKeys \<Rightarrow> X3DHBundle \<Rightarrow> bool
    \<Rightarrow> jsstring \<Rightarrow> jsstring \<Rightarrow> int \<Rightarrow> js_error + SessionState \<times> sessionStore" where
  "completeHandshake store userId1' deviceId1' userId2' deviceId2' ourDeviceKeys theirPreKeyBundle
       isInitiator rnd1 rnd2 now =
     (let dh1 = KeyPair.publicKey (signingKeys ourDeviceKeys) @ lit '':''
                  @ identityKey theirPreKeyBundle;
          dh2 = secretKey (agreementKeys ourDeviceKeys) @ lit '':''
                  @ identityKey theirPreKeyBundle;
          dh3 = KeyPair.publicKey (signingKeys ourDeviceKeys) @ lit '':''
                  @ signedPreKey theirPreKeyBundle;
          dh4 = secretKey (agreementKeys ourDeviceKeys) @ lit '':''
                  @ signedPreKey theirPreKeyBundle;
          sessionKey' = deriveSharedSecret
             (dh1 @ lit '':'' @ dh2 @ lit '':'' @ dh3 @ lit '':'' @ dh4)
             (first (oneTimePreKeys theirPreKeyBundle))
             (secretKey (agreementKeys ourDeviceKeys)) rnd1 rnd2;
          sessionId' = session_id userId1' userId2' deviceId1' deviceId2';
          sessionState =
            \<lparr>sessionId = sessionId',
             userId1 = userId1',
             userId2 = userId2',
             deviceId1 = deviceId1',
             deviceId2 = deviceId2',
             sessionKey = sessionKey',
             state = Established,
             x3dhData = \<lparr>X3DHData.sharedSecret = SessionKey.sharedSecret sessionKey',
                         X3DHData.messageCounter = Num 0\<rparr>,
             SessionState.createdAt = now,
             lastUpdated = now\<rparr>
      in Inr (sessionState, store(sessionId' \<mapsto> sessionState)))"

definition getOrCreateSession ::
  "sessionStore \<Rightarrow> jsstring \<Rightarrow> jsstring \<Rightarrow> jsstring \<Rightarrow> jsstring \<Rightarrow> SessionState option" where
  "getOrCreateSession store userId1' deviceId1' userId2' deviceId2' =
     store (session_id userId1' userId2' deviceId1' deviceId2')"

section \<open>message-pipeline.ts\<close>

text \<open>
  The interface types \<open>conversationId\<close> and \<open>content\<close> as \<open>string\<close>; the check
  \<open>!message.conversationId\<close> is there for a property that is missing at run time,
  which is \<open>None\<close> here.
\<close>

record PlaintextMessage =
  conversationId :: "jsstring option"
  senderId :: jsstring
  senderDeviceId :: jsstring
  recipientId :: jsstring
  recipientDeviceId :: jsstring
  content :: "jsstring option"
  attachmentIds :: "jsstring list option"
  metadata :: "(jsstring \<times> jsstring) list option"



text \<open>
  \<open>messagePipeline.decryptMessage\<close>, with the session passed in and returned. The
  counters are compared as numbers, with \<open><=\<close>; a counter that is missing at run
  time is \<open>undefined\<close>, which \<open><=\<close> converts to \<open>NaN\<close>, and it is
  \<open>NaN\<close> here. What
  \<open>JSON.parse\<close> makes of the decrypted text is the parameter \<open>parse\<close> (\<open>None\<close>: it
  throws); the evaluation of the returned object literal, which reads
  \<open>message.content\<close> and calls \<open>message.timestamp.toString()\<close>, is the parameter
  \<open>build\<close> (\<open>None\<close>: it throws). Every exception ends in the \<open>catch\<close> block, which
  returns \<open>null\<close>; the session is updated between the two, as in the source.
\<close>

definition messagePipeline_decryptMessage ::
  "(jsstring \<Rightarrow> 'm option) \<Rightarrow> ('m \<Rightarrow> 'r option) \<Rightarrow> EncryptedMessage \<Rightarrow> SessionState \<Rightarrow> int
    \<Rightarrow> 'r option \<times> SessionState" where
  "messagePipeline_decryptMessage parse build encrypted session now =
     (if js_le (EncryptedMessage.messageCounter encrypted)
           (SessionKey.messageCounter (sessionKey session))
      then (None, session)
      else
        (case cryptoUtils_decryptMessage encrypted (sessionKey session) of
           Inl e \<Rightarrow> (None, session)
         | Inr decrypted \<Rightarrow>
             (case parse decrypted of
                None \<Rightarrow> (None, session)
              | Some message \<Rightarrow>
                  (let session' = session
                         \<lparr>sessionKey := (sessionKey session)
                            \<lparr>SessionKey.messageCounter :=
                               EncryptedMessage.messageCounter encrypted\<rparr>,
                          lastUpdated := now\<rparr>
                   in (build message, session')))))"

text \<open>
  A run of \<open>decryptMessage\<close> calls on one session, each call made after the one before
  has returned: the envelopes for which a result other than \<open>null\<close> came back, and the
  session at the end.
\<close>

fun receive_all ::
  "(jsstring \<Rightarrow> 'm option) \<Rightarrow> ('m \<Rightarrow> 'r option) \<Rightarrow> SessionState \<Rightarrow> (EncryptedMessage \<times> int) list
    \<Rightarrow> EncryptedMessage list \<times> SessionState" where
  "receive_all parse build session [] = ([], session)"
| "receive_all parse build session ((encrypted, now) # rest) =
     (case messagePipeline_decryptMessage parse build encrypted session now of
        (result, session') \<Rightarrow>
          (case receive_all parse build session' rest of
             (accepted, final) \<Rightarrow>
               (if result = None then accepted else encrypted # accepted, final)))"

section \<open>offline-queue.ts\<close>

datatype status = Pending | Sending | Sent | Failed | Delivered

text \<open>
  Counters are integers. \<open>nextRetryTime\<close> is \<open>Date.now()\<close> plus a delay with a
  fractional jitter, so it is the real value of a double; the other times are
  readings of \<open>Date.now()\<close>, in whole milliseconds.
\<close>

record QueuedMessage =
  id' :: jsstring
  userId :: jsstring
  conversationId :: jsstring
  content :: jsstring
  encrypted :: jsstring
  sessionId :: jsstring
  timestamp :: int
  attempts :: int
  maxRetries :: int
  nextRetryTime :: real
  status :: status
  error :: "jsstring option"
  createdAt :: int
  updatedAt :: int

record DeliveryStatus =
  messageId :: jsstring
  status :: status
  sentAt :: "int option"
  deliveredAt :: "int option"
  error :: "jsstring option"
  retries :: int

text \<open>
  \<open>messages\<close> is a \<open>Map\<close> whose entries are visited in insertion order, so it is an
  association list; \<open>deliveryStatus\<close> is only read and written by key.
\<close>

record OfflineQueueState =
  messages :: "(jsstring \<times> QueuedMessage list) list"
  deliveryStatus :: "jsstring \<rightharpoonup> DeliveryStatus"
  isOnline :: bool
  syncInProgress :: bool
  lastSyncTime :: int

text \<open>
  \<open>getRetryDelay\<close>; \<open>rnd\<close> is the value of \<open>Math.random()\<close>, a double in
  [0, 1). Each operation is rounded: \<open>Math.pow(2, n)\<close>, the product with 1000,
  the jitter \<open>Math.random() * 1000\<close> and the sum. From \<open>n = 1015\<close> on the
  product is \<open>Infinity\<close> in the code and a real above 60000 here, and
  \<open>Math.min\<close> gives 60000 for both.
\<close>

definition getRetryDelay :: "int \<Rightarrow> real \<Rightarrow> real" where
  "getRetryDelay attemptNumber rnd =
     (let delay = min (fl (1000 * fl (pow2 attemptNumber))) 60000
      in fl (delay + fl (rnd * 1000)))"

text \<open>\<open>xs.findIndex(p)\<close>: the first index whose element satisfies \<open>p\<close>, if any.\<close>

fun findIndex :: "('a \<Rightarrow> bool) \<Rightarrow> 'a list \<Rightarrow> nat option" where
  "findIndex p [] = None"
| "findIndex p (x # xs) = (if p x then Some 0 else map_option Suc (findIndex p xs))"

text \<open>
  The message at an index of a user's array is an object mutated in place: writing
  it back changes that element of the array the \<open>Map\<close> holds for the user.
\<close>

definition put_message ::
  "OfflineQueueState \<Rightarrow> jsstring \<Rightarrow> nat \<Rightarrow> QueuedMessage \<Rightarrow> OfflineQueueState" where
  "put_message st userId' i message =
     st\<lparr>messages := AList.map_entry userId' (\<lambda>ms. ms[i := message]) (messages st)\<rparr>"

text \<open>
  \<open>processMessage\<close>. \<open>now\<close> is the clock when the call starts, \<open>draw\<close> the
  \<open>Math.random()\<close> of the simulated network request, \<open>later\<close> the clock when that
  request settles and \<open>jitter\<close> the \<open>Math.random()\<close> of \<open>getRetryDelay\<close>; the
  sum \<open>Date.now() + nextRetry\<close> is rounded to a double. The
  request is rejected with \<open>new Error("Network timeout")\<close> when
  \<open>draw < 0.1 && message.attempts < message.maxRetries\<close>. Writing the queue to
  \<open>localStorage\<close> is not part of the state.
\<close>

definition processMessage ::
  "OfflineQueueState \<Rightarrow> jsstring \<Rightarrow> jsstring \<Rightarrow> int \<Rightarrow> real \<Rightarrow> int \<Rightarrow> real
    \<Rightarrow> bool \<times> OfflineQueueState" where
  "processMessage st userId' messageId' now draw later jitter =
     (case map_of (messages st) userId' of
        None \<Rightarrow> (False, st)
      | Some userMessages \<Rightarrow>
          (case findIndex (\<lambda>m. id' m = messageId') userMessages of
             None \<Rightarrow> (False, st)
           | Some messageIndex \<Rightarrow>
               (let message = userMessages ! messageIndex in
                if QueuedMessage.status message = Sent \<or> QueuedMessage.status message = Delivered
                then (True, st)
                else if real_of_int now < nextRetryTime message then (False, st)
                else if maxRetries message \<le> attempts message then
                  (False, put_message st userId' messageIndex
                     (message\<lparr>QueuedMessage.status := Failed,
                              QueuedMessage.error := Some (lit ''Max retries exceeded''),
                              updatedAt := now\<rparr>))
                else
                  (let message1 = message\<lparr>attempts := attempts message + 1, updatedAt := now\<rparr>
                   in
                   if draw < 0.1 \<and> attempts message1 < maxRetries message1 then
                     (let nextRetry = getRetryDelay (attempts message1) jitter;
                          message2 = message1
                            \<lparr>nextRetryTime := fl (real_of_int later + nextRetry),
                             QueuedMessage.error := Some (lit ''Network timeout''),
                             updatedAt := later\<rparr>;
                          st2 = put_message st userId' messageIndex message2
                      in (False,
                          case deliveryStatus st2 (id' message2) of
                            None \<Rightarrow> st2
                          | Some s \<Rightarrow>
                              st2\<lparr>deliveryStatus := (deliveryStatus st2)
                                (id' message2 \<mapsto>
                                   s\<lparr>DeliveryStatus.error := QueuedMessage.error message2,
                                     retries := attempts message2\<rparr>)\<rparr>))
                   else
                     (let message2 = message1\<lparr>QueuedMessage.status := Sent, updatedAt := later\<rparr>;
                          st2 = put_message st userId' messageIndex message2
                      in (True,
                          case deliveryStatus st2 (id' message2) of
                            None \<Rightarrow> st2
                          | Some s \<Rightarrow>
                              st2\<lparr>deliveryStatus := (deliveryStatus st2)
                                (id' message2 \<mapsto>
                                   s\<lparr>DeliveryStatus.status := Sent,
                                     sentAt := Some later,
                                     retries := attempts message2\<rparr>)\<rparr>))))))"

text \<open>
  The loop of \<open>retryMessage\<close> up to its call of \<open>processMessage\<close>: the users are
  visited in the order of the \<open>Map\<close>, \<open>find\<close> takes the first message with the id,
  and that message is reset in place. The result is the user and the entries after
  the reset, or \<open>None\<close> when no user has a message with the id.
\<close>

definition reset_message :: "int \<Rightarrow> QueuedMessage \<Rightarrow> QueuedMessage" where
  "reset_message now message =
     message\<lparr>QueuedMessage.status := Pending,
             nextRetryTime := real_of_int now,
             attempts := 0,
             QueuedMessage.error := None\<rparr>"

fun retry_scan ::
  "jsstring \<Rightarrow> int \<Rightarrow> (jsstring \<times> QueuedMessage list) list
    \<Rightarrow> (jsstring \<times> (jsstring \<times> QueuedMessage list) list) option" where
  "retry_scan messageId' now [] = None"
| "retry_scan messageId' now ((userId', userMessages) # rest) =
     (case findIndex (\<lambda>m. id' m = messageId') userMessages of
        Some i \<Rightarrow>
          Some (userId', (userId', userMessages[i := reset_message now (userMessages ! i)]) # rest)
      | None \<Rightarrow>
          map_option (\<lambda>(u, entries). (u, (userId', userMessages) # entries))
            (retry_scan messageId' now rest))"

text \<open>
  \<open>retryMessage\<close>; \<open>now\<close> is the clock at the reset, and the remaining arguments
  are those of the \<open>processMessage\<close> call that follows.
\<close>

definition retryMessage ::
  "OfflineQueueState \<Rightarrow> jsstring \<Rightarrow> int \<Rightarrow> int \<Rightarrow> real \<Rightarrow> int \<Rightarrow> real \<Rightarrow> bool \<times> OfflineQueueState" where
  "retryMessage st messageId' now now' draw later jitter =
     (case retry_scan messageId' now (messages st) of
        None \<Rightarrow> (False, st)
      | Some (userId', entries) \<Rightarrow>
          processMessage (st\<lparr>messages := entries\<rparr>) userId' messageId' now' draw later jitter)"

text \<open>The entry that \<open>userMessages.find((m) => m.id === messageId)\<close> yields for a user.\<close>

definition queued :: "OfflineQueueState \<Rightarrow> jsstring \<Rightarrow> jsstring \<Rightarrow> QueuedMessage option" where
  "queued st userId' messageId' =
     (case map_of (messages st) userId' of
        None \<Rightarrow> None
      | Some userMessages \<Rightarrow> find (\<lambda>m. id' m = messageId') userMessages)"

text \<open>Some user of the queue has a message with the id.\<close>

definition present :: "OfflineQueueState \<Rightarrow> jsstring \<Rightarrow> bool" where
  "present st messageId' =
     list_ex (\<lambda>(u, userMessages). list_ex (\<lambda>m. id' m = messageId') userMessages) (messages st)"

section \<open>Sample data\<close>


definition sample_entry :: "int \<Rightarrow> int \<Rightarrow> real \<Rightarrow> status \<Rightarrow> QueuedMessage" where
  "sample_entry n k t s =
     \<lparr>id' = lit ''m1'',
      userId = lit ''alice'',
      QueuedMessage.conversationId = lit ''c1'',
      QueuedMessage.content = lit ''hi'',
      encrypted = lit ''aGk='',
      QueuedMessage.sessionId = lit ''s1'',
      QueuedMessage.timestamp = 0,
      attempts = n,
      maxRetries = k,
      nextRetryTime = t,
      QueuedMessage.status = s,
      QueuedMessage.error = None,
      QueuedMessage.createdAt = 0,
      updatedAt = 0\<rparr>"

definition sample_queue :: "QueuedMessage \<Rightarrow> OfflineQueueState" where
  "sample_queue m =
     \<lparr>messages = [(lit ''alice'', [m])],
      deliveryStatus = [lit ''m1'' \<mapsto>
        \<lparr>messageId = lit ''m1'', DeliveryStatus.status = Pending, sentAt = None,
         deliveredAt = None, DeliveryStatus.error = None, retries = 0\<rparr>],
      isOnline = True,
      syncInProgress = False,
      lastSyncTime = 0\<rparr>"

definition sample_session :: "int \<Rightarrow> SessionState" where
  "sample_session n =
     \<lparr>SessionState.sessionId = lit ''session:alice:bob:a1:b1'',
      userId1 = lit ''alice'',
      userId2 = lit ''bob'',
      deviceId1 = lit ''a1'',
      deviceId2 = lit ''b1'',
      sessionKey = \<lparr>SessionKey.sharedSecret = lit ''c2VjcmV0'',
                     SessionKey.headerSecret = lit ''aGVhZGVy'',
                     chainKey = lit ''Y2hhaW4='',
                     SessionKey.messageCounter = Num (real_of_int n)\<rparr>,
      state = Established,
      x3dhData = \<lparr>X3DHData.sharedSecret = lit ''c2VjcmV0'', X3DHData.messageCounter = Num 0\<rparr>,
      SessionState.createdAt = 0,
      lastUpdated = 0\<rparr>"

text \<open>
  A payload as \<open>prepareMessageForEncryption\<close> serialises it, cut down to the
  three properties \<open>decryptMessage\<close> reads, and what \<open>JSON.parse\<close> and the
  returned object literal make of it: the content, the message id and the timestamp
  as a number, then the content, \<open>metadata.messageId\<close> and
  \<open>metadata.originalTimestamp\<close>. \<open>sample_parse\<close> and \<open>sample_build\<close> stand
  for the two steps on this payload only.
\<close>

definition sample_payload :: jsstring where
  \<open>sample_payload = lit ''{"content":"hi","messageId":"m1","timestamp":1}''\<close>

definition sample_parse :: "jsstring \<Rightarrow> (jsstring \<times> jsstring \<times> int) option" where
  "sample_parse text' =
     (if text' = sample_payload then Some (lit ''hi'', lit ''m1'', 1) else None)"

definition sample_build ::
  "jsstring \<times> jsstring \<times> int \<Rightarrow> (jsstring \<times> jsstring \<times> jsstring) option" where
  "sample_build message =
     (case message of (c, i, t) \<Rightarrow> if t = 1 then Some (c, i, lit ''1'') else None)"

text \<open>An envelope that carries the sample payload, with a given counter.\<close>

definition sample_envelope :: "js_number \<Rightarrow> EncryptedMessage" where
  "sample_envelope n =
     \<lparr>ciphertext = to_base64 sample_payload,
      nonce = lit ''MC41'',
      EncryptedMessage.senderDeviceId = lit ''a1'',
      EncryptedMessage.recipientDeviceId = lit ''b1'',
      EncryptedMessage.timestamp = 0,
      EncryptedMessage.messageCounter = n,
      EncryptedMessage.headerSecret = lit ''aGVhZGVy''\<rparr>"

definition sample_keys :: "string \<Rightarrow> DeviceKeys" where
  "sample_keys n =
     \<lparr>deviceId = lit (n @ ''.dev''),
      signingKeys = \<lparr>KeyPair.publicKey = lit (n @ ''.ik''), secretKey = lit (n @ ''.ik.sec'')\<rparr>,
      agreementKeys = \<lparr>KeyPair.publicKey = lit (n @ ''.dh''), secretKey = lit (n @ ''.dh.sec'')\<rparr>,
      preKeys = [\<lparr>PreKey.keyId = 0, PreKey.publicKey = lit (n @ ''.spk''),
                  signature = lit (n @ ''.sig''), PreKey.createdAt = 0\<rparr>],
      oneTimeKeys = [\<lparr>OneTimeKey.keyId = 0, OneTimeKey.publicKey = lit (n @ ''.otk0'')\<rparr>,
                     \<lparr>OneTimeKey.keyId = 1, OneTimeKey.publicKey = lit (n @ ''.otk1'')\<rparr>]\<rparr>"

definition sample_bundle :: "string \<Rightarrow> int \<Rightarrow> X3DHBundle" where
  "sample_bundle n t =
     \<lparr>identityKey = lit (n @ ''.ik''),
      signedPreKey = lit (n @ ''.spk''),
      signedPreKeySignature = lit (n @ ''.sig''),
      oneTimePreKeys = [lit (n @ ''.otk0''), lit (n @ ''.otk1'')],
      X3DHBundle.timestamp = t\<rparr>"

definition forged_bundle :: X3DHBundle where
  "forged_bundle = (sample_bundle ''B'' 2)\<lparr>signedPreKeySignature := []\<rparr>"

section \<open>Base64 and UTF-8: decoding inverts encoding\<close>

lemma unat_unit_of: "n < 65536 \<Longrightarrow> unat (unit_of n) = n"
  by (simp add: unit_of_def unat_of_nat)

lemma unat_byte_of: "n < 256 \<Longrightarrow> unat (byte_of n) = n"
  by (simp add: byte_of_def unat_of_nat)

lemma unit_of_unat: "unit_of (unat u) = u"
  by (simp add: unit_of_def)

lemma byte_of_unat: "byte_of (unat b) = b"
  by (simp add: byte_of_def)

lemma unat_byte_bound: "unat (a :: byte) < 256"
  using unsigned_less [of a, where 'a = nat] by simp

lemma unat_unit_bound: "unat (a :: 16 word) < 65536"
  using unsigned_less [of a, where 'a = nat] by simp

lemma unbase64_b64_char: "n < 64 \<Longrightarrow> unbase64 (b64_char n) = Some n"
  by (auto simp: unbase64_def low_byte_def b64_char_def unat_unit_of Let_def)

lemma b64_char_not_pad: "n < 64 \<Longrightarrow> low_byte (b64_char n) \<noteq> 61"
  by (auto simp: b64_char_def low_byte_def unat_unit_of)

lemma sextets_b64_char: "n < 64 \<Longrightarrow> sextets (b64_char n # cs) = n # sextets cs"
  by (simp add: unbase64_b64_char b64_char_not_pad)

lemma sextets_pad: "sextets (unit_of 61 # cs) = []"
  by (simp add: low_byte_def unat_unit_of)

lemma base64_roundtrip: "base64_decode (base64_encode bs) = bs"
  unfolding base64_decode_def
proof (induction bs rule: base64_encode.induct)
  case 1
  show ?case by simp
next
  case (2 a)
  have "unat a < 256" by (rule unat_byte_bound)
  then show ?case by (simp add: sextets_b64_char sextets_pad byte_of_unat del: sextets.simps(2))
next
  case (3 a b)
  have "unat a < 256" "unat b < 256" by (rule unat_byte_bound)+
  then show ?case by (simp add: sextets_b64_char sextets_pad byte_of_unat del: sextets.simps(2))
next
  case (4 a b c bs)
  have "unat a < 256" "unat b < 256" "unat c < 256" by (rule unat_byte_bound)+
  then show ?case using 4 by (simp add: sextets_b64_char byte_of_unat del: sextets.simps(2))
qed

lemma lead2: "q < 32 \<Longrightarrow> (192 + q) mod 32 = (q::nat)"
  using mod_mult_self4 [of 32 6 q] by simp

lemma lead3: "q < 16 \<Longrightarrow> (224 + q) mod 16 = (q::nat)"
  using mod_mult_self4 [of 16 14 q] by simp

lemma lead4: "q < 8 \<Longrightarrow> (240 + q) mod 8 = (q::nat)"
  using mod_mult_self4 [of 8 30 q] by simp

lemma cont_mod: "r < 64 \<Longrightarrow> (128 + r) mod 64 = (r::nat)"
  using mod_mult_self4 [of 64 2 r] by simp

lemma join3: "((c::nat) div 4096 * 64 + c div 64 mod 64) * 64 + c mod 64 = c"
proof -
  have "c div 4096 = c div 64 div 64" by (simp add: div_mult2_eq)
  then show ?thesis by simp
qed

lemma join4:
  "(((c::nat) div 0x40000 * 64 + c div 4096 mod 64) * 64 + c div 64 mod 64) * 64 + c mod 64 = c"
proof -
  have "c div 4096 = c div 64 div 64" "c div 0x40000 = c div 64 div 64 div 64"
    by (simp_all add: div_mult2_eq)
  then show ?thesis by simp
qed

lemma step_cont:
  assumes "0 < need" "lo \<le> 128 + r" "128 + r \<le> hi" "r < 64"
  shows "utf8_step (cp, need, lo, hi) (128 + r) =
    (if need = 1 then ([cp * 64 + r], utf8_idle) else ([], (cp * 64 + r, need - 1, 0x80, 0xBF)))"
  using assms by (simp add: utf8_step_def cont_mod)

lemma step_lead2: "2 \<le> q \<Longrightarrow> q < 32 \<Longrightarrow> utf8_step utf8_idle (192 + q) = ([], (q, 1, 0x80, 0xBF))"
  by (simp add: utf8_step_def utf8_start_def utf8_idle_def lead2)

lemma step_lead3: "q < 16 \<Longrightarrow> utf8_step utf8_idle (224 + q) =
    ([], (q, 2, if q = 0 then 0xA0 else 0x80, if q = 13 then 0x9F else 0xBF))"
  by (simp add: utf8_step_def utf8_start_def utf8_idle_def lead3)

lemma step_lead4: "q < 5 \<Longrightarrow> utf8_step utf8_idle (240 + q) =
    ([], (q, 3, if q = 0 then 0x90 else 0x80, if q = 4 then 0x8F else 0xBF))"
  by (simp add: utf8_step_def utf8_start_def utf8_idle_def lead4)

lemma run_byte:
  "x < 256 \<Longrightarrow> utf8_step st x = (out, st') \<Longrightarrow>
   utf8_run st (byte_of x # bs) = out @ utf8_run st' bs"
  by (simp add: unat_byte_of)

lemma idle_need: "fst (snd utf8_idle) = 0"
  by (simp add: utf8_idle_def)

lemma utf8_run_1:
  assumes "c < 0x80"
  shows "utf8_run utf8_idle (utf8_bytes c @ bs) = c # utf8_run utf8_idle bs"
  using assms
  by (simp add: utf8_bytes_def unat_byte_of utf8_step_def utf8_start_def utf8_idle_def)

lemma utf8_run_2:
  assumes "0x80 \<le> c" "c < 0x800"
  shows "utf8_run utf8_idle (utf8_bytes c @ bs) = c # utf8_run utf8_idle bs"
proof -
  define q r where "q = c div 64" and "r = c mod 64"
  have q: "2 \<le> q" "q < 32" and r: "r < 64" and c: "q * 64 + r = c"
    using assms by (simp_all add: q_def r_def)
  have s1: "utf8_step utf8_idle (192 + q) = ([], (q, 1, 0x80, 0xBF))"
    using q by (rule step_lead2)
  have s2: "utf8_step (q, 1, 0x80, 0xBF) (128 + r) = ([c], utf8_idle)"
    using r c by (simp add: step_cont)
  have "utf8_bytes c = [byte_of (192 + q), byte_of (128 + r)]"
    using assms by (simp add: utf8_bytes_def q_def r_def)
  moreover have "utf8_run utf8_idle (byte_of (192 + q) # byte_of (128 + r) # bs) =
      [] @ utf8_run (q, 1, 0x80, 0xBF) (byte_of (128 + r) # bs)"
    using q by (intro run_byte [OF _ s1]) simp
  moreover have "utf8_run (q, 1, 0x80, 0xBF) (byte_of (128 + r) # bs) = [c] @ utf8_run utf8_idle bs"
    using r by (intro run_byte [OF _ s2]) simp
  ultimately show ?thesis by simp
qed

lemma utf8_run_3:
  assumes "0x800 \<le> c" "c < 0x10000" "\<not> (0xD800 \<le> c \<and> c \<le> 0xDFFF)"
  shows "utf8_run utf8_idle (utf8_bytes c @ bs) = c # utf8_run utf8_idle bs"
proof -
  define q m r where "q = c div 4096" and "m = c div 64 mod 64" and "r = c mod 64"
  have q: "q < 16" and m: "m < 64" and r: "r < 64" and c: "(q * 64 + m) * 64 + r = c"
    using assms join3 [of c] by (simp_all add: q_def m_def r_def)
  have lo: "q = 0 \<Longrightarrow> 32 \<le> m"
  proof -
    assume "q = 0"
    then have "c < 4096" by (simp add: q_def)
    then have "c div 64 < 64" by simp
    then have "m = c div 64" by (simp add: m_def)
    then show "32 \<le> m" using assms(1) by simp
  qed
  have hi: "q = 13 \<Longrightarrow> m < 32"
  proof -
    assume "q = 13"
    then have "c div 64 div 64 = 13" by (simp add: q_def div_mult2_eq)
    moreover have "c div 64 mod 64 + c div 64 div 64 * 64 = c div 64" by simp
    ultimately have "m + 832 = c div 64" by (simp add: m_def)
    moreover have "53248 \<le> c" "c < 57344" using \<open>q = 13\<close> by (simp_all add: q_def)
    then have "c < 0xD800" using assms(3) by simp
    then have "c div 64 < 864" by simp
    ultimately show "m < 32" by simp
  qed
  have s1: "utf8_step utf8_idle (224 + q) =
      ([], (q, 2, if q = 0 then 0xA0 else 0x80, if q = 13 then 0x9F else 0xBF))"
    using q by (rule step_lead3)
  have s2: "utf8_step (q, 2, if q = 0 then 0xA0 else 0x80, if q = 13 then 0x9F else 0xBF) (128 + m)
      = ([], (q * 64 + m, 1, 0x80, 0xBF))"
    using m lo hi by (subst step_cont) auto
  have s3: "utf8_step (q * 64 + m, 1, 0x80, 0xBF) (128 + r) = ([c], utf8_idle)"
    using r c by (simp add: step_cont)
  have "utf8_bytes c = [byte_of (224 + q), byte_of (128 + m), byte_of (128 + r)]"
    using assms by (simp add: utf8_bytes_def q_def m_def r_def)
  moreover have "utf8_run utf8_idle (byte_of (224 + q) # byte_of (128 + m) # byte_of (128 + r) # bs) =
      [] @ utf8_run (q, 2, if q = 0 then 0xA0 else 0x80, if q = 13 then 0x9F else 0xBF)
        (byte_of (128 + m) # byte_of (128 + r) # bs)"
    using q by (intro run_byte [OF _ s1]) simp
  moreover have "utf8_run (q, 2, if q = 0 then 0xA0 else 0x80, if q = 13 then 0x9F else 0xBF)
        (byte_of (128 + m) # byte_of (128 + r) # bs) =
      [] @ utf8_run (q * 64 + m, 1, 0x80, 0xBF) (byte_of (128 + r) # bs)"
    using m by (intro run_byte [OF _ s2]) simp
  moreover have "utf8_run (q * 64 + m, 1, 0x80, 0xBF) (byte_of (128 + r) # bs) =
      [c] @ utf8_run utf8_idle bs"
    using r by (intro run_byte [OF _ s3]) simp
  ultimately show ?thesis by simp
qed

lemma utf8_run_4:
  assumes "0x10000 \<le> c" "c < 0x110000"
  shows "utf8_run utf8_idle (utf8_bytes c @ bs) = c # utf8_run utf8_idle bs"
proof -
  define q n m r where "q = c div 0x40000" and "n = c div 4096 mod 64"
    and "m = c div 64 mod 64" and "r = c mod 64"
  have q: "q < 5" and n: "n < 64" and m: "m < 64" and r: "r < 64"
    and c: "((q * 64 + n) * 64 + m) * 64 + r = c"
    using assms join4 [of c] by (simp_all add: q_def n_def m_def r_def)
  have lo: "q = 0 \<Longrightarrow> 16 \<le> n"
  proof -
    assume "q = 0"
    then have "c < 0x40000" by (simp add: q_def)
    then have "c div 4096 < 64" by simp
    then have "n = c div 4096" by (simp add: n_def)
    then show "16 \<le> n" using assms(1) by simp
  qed
  have hi: "q = 4 \<Longrightarrow> n < 16"
  proof -
    assume "q = 4"
    then have "c div 4096 div 64 = 4" by (simp add: q_def div_mult2_eq)
    moreover have "c div 4096 mod 64 + c div 4096 div 64 * 64 = c div 4096" by simp
    ultimately have "n + 256 = c div 4096" by (simp add: n_def)
    moreover have "c div 4096 < 272" using assms(2) by simp
    ultimately show "n < 16" by simp
  qed
  have s1: "utf8_step utf8_idle (240 + q) =
      ([], (q, 3, if q = 0 then 0x90 else 0x80, if q = 4 then 0x8F else 0xBF))"
    using q by (rule step_lead4)
  have s2: "utf8_step (q, 3, if q = 0 then 0x90 else 0x80, if q = 4 then 0x8F else 0xBF) (128 + n)
      = ([], (q * 64 + n, 2, 0x80, 0xBF))"
    using n lo hi by (subst step_cont) auto
  have s3: "utf8_step (q * 64 + n, 2, 0x80, 0xBF) (128 + m) = ([], ((q * 64 + n) * 64 + m, 1, 0x80, 0xBF))"
    using m by (simp add: step_cont)
  have s4: "utf8_step ((q * 64 + n) * 64 + m, 1, 0x80, 0xBF) (128 + r) = ([c], utf8_idle)"
    using r c by (simp add: step_cont)
  have "utf8_bytes c = [byte_of (240 + q), byte_of (128 + n), byte_of (128 + m), byte_of (128 + r)]"
    using assms by (simp add: utf8_bytes_def q_def n_def m_def r_def)
  moreover have "utf8_run utf8_idle
        (byte_of (240 + q) # byte_of (128 + n) # byte_of (128 + m) # byte_of (128 + r) # bs) =
      [] @ utf8_run (q, 3, if q = 0 then 0x90 else 0x80, if q = 4 then 0x8F else 0xBF)
        (byte_of (128 + n) # byte_of (128 + m) # byte_of (128 + r) # bs)"
    using q by (intro run_byte [OF _ s1]) simp
  moreover have "utf8_run (q, 3, if q = 0 then 0x90 else 0x80, if q = 4 then 0x8F else 0xBF)
        (byte_of (128 + n) # byte_of (128 + m) # byte_of (128 + r) # bs) =
      [] @ utf8_run (q * 64 + n, 2, 0x80, 0xBF) (byte_of (128 + m) # byte_of (128 + r) # bs)"
    using n by (intro run_byte [OF _ s2]) simp
  moreover have "utf8_run (q * 64 + n, 2, 0x80, 0xBF) (byte_of (128 + m) # byte_of (128 + r) # bs) =
      [] @ utf8_run ((q * 64 + n) * 64 + m, 1, 0x80, 0xBF) (byte_of (128 + r) # bs)"
    using m by (intro run_byte [OF _ s3]) simp
  moreover have "utf8_run ((q * 64 + n) * 64 + m, 1, 0x80, 0xBF) (byte_of (128 + r) # bs) =
      [c] @ utf8_run utf8_idle bs"
    using r by (intro run_byte [OF _ s4]) simp
  ultimately show ?thesis by simp
qed

lemma utf8_run_scalar:
  assumes "scalar c"
  shows "utf8_run utf8_idle (utf8_bytes c @ bs) = c # utf8_run utf8_idle bs"
proof -
  consider "c < 0x80" | "0x80 \<le> c \<and> c < 0x800" | "0x800 \<le> c \<and> c < 0x10000" | "0x10000 \<le> c"
    by linarith
  then show ?thesis
  proof cases
    case 1 then show ?thesis by (rule utf8_run_1)
  next
    case 2 then show ?thesis by (simp add: utf8_run_2)
  next
    case 3 then show ?thesis using assms by (simp add: utf8_run_3 scalar_def)
  next
    case 4 then show ?thesis using assms by (simp add: utf8_run_4 scalar_def)
  qed
qed

lemma utf8_run_concat:
  "list_all scalar cs \<Longrightarrow> utf8_run utf8_idle (concat (map utf8_bytes cs)) = cs"
  by (induction cs) (simp_all add: utf8_run_scalar idle_need)

lemma units_bmp:
  assumes "\<not> is_high u" "\<not> is_low u"
  shows "scalar (unat u)" "utf16_units (unat u) = [u]"
  using assms unat_unit_bound [of u]
  by (auto simp: scalar_def is_high_def is_low_def utf16_units_def unit_of_unat)

lemma pair_arith:
  fixes h l :: nat
  assumes "0xD800 \<le> h" "h \<le> 0xDBFF" "0xDC00 \<le> l" "l \<le> 0xDFFF"
  defines "c \<equiv> 0x10000 + (h - 0xD800) * 0x400 + (l - 0xDC00)"
  shows "0x10000 \<le> c" "c < 0x110000"
    "0xD800 + (c - 0x10000) div 0x400 = h" "0xDC00 + (c - 0x10000) mod 0x400 = l"
proof -
  define a b where "a = h - 0xD800" and "b = l - 0xDC00"
  have a: "a < 0x400" "h = 0xD800 + a" and b: "b < 0x400" "l = 0xDC00 + b"
    using assms(1-4) by (simp_all add: a_def b_def)
  have c: "c = 0x10000 + (a * 0x400 + b)"
    by (simp add: c_def a_def b_def)
  show "0x10000 \<le> c" by (simp add: c)
  have "a * 0x400 \<le> 0x3FF * 0x400" using a(1) by simp
  then show "c < 0x110000" using b(1) by (simp add: c)
  have "(a * 0x400 + b) div 0x400 = a" "(a * 0x400 + b) mod 0x400 = b"
    using b(1) by simp_all
  then show "0xD800 + (c - 0x10000) div 0x400 = h" "0xDC00 + (c - 0x10000) mod 0x400 = l"
    by (simp_all add: c a(2) b(2))
qed

lemma units_pair:
  assumes "is_high u" "is_low l"
  defines "c \<equiv> 0x10000 + (unat u - 0xD800) * 0x400 + (unat l - 0xDC00)"
  shows "scalar c" "utf16_units c = [u, l]"
proof -
  note ar = pair_arith [of "unat u" "unat l", folded c_def]
  have h: "0xD800 \<le> unat u" "unat u \<le> 0xDBFF" and l: "0xDC00 \<le> unat l" "unat l \<le> 0xDFFF"
    using assms(1,2) by (simp_all add: is_high_def is_low_def)
  from ar(1,2) [OF h l] show "scalar c" by (simp add: scalar_def)
  from ar(1) [OF h l] have "\<not> c < 0x10000" by simp
  then show "utf16_units c = [u, l]"
    using ar(3,4) [OF h l] by (simp add: utf16_units_def unit_of_unat)
qed

lemma code_points_well_formed:
  "well_formed s \<Longrightarrow> list_all scalar (code_points s) \<and> concat (map utf16_units (code_points s)) = s"
proof (induction s rule: code_points.induct)
  case 1
  show ?case by simp
next
  case (2 u)
  then show ?case by (simp add: units_bmp)
next
  case (3 u l us)
  show ?case
  proof (cases "is_high u")
    case True
    with 3 show ?thesis by (simp add: units_pair)
  next
    case False
    with 3 show ?thesis by (simp add: units_bmp)
  qed
qed

lemma utf8_roundtrip: "well_formed s \<Longrightarrow> utf8_decode (utf8_encode s) = s"
  by (simp add: utf8_decode_def utf8_encode_def utf8_run_concat code_points_well_formed)

lemma base64_string_roundtrip: "well_formed s \<Longrightarrow> from_base64 (to_base64 s) = s"
  by (simp add: from_base64_def to_base64_def base64_roundtrip utf8_roundtrip)

section \<open>Rounding to a double\<close>

lemma pow2_pos: "0 < pow2 n"
  by (simp add: pow2_def)

lemma pow2_nonneg: "0 \<le> n \<Longrightarrow> pow2 n = 2 ^ nat n"
  by (simp add: pow2_def)

lemma pow2_neg: "n \<le> 0 \<Longrightarrow> pow2 n = 1 / 2 ^ nat (- n)"
  by (simp add: pow2_def)

lemma pow2_powr: "pow2 n = 2 powr real_of_int n"
proof (cases "0 \<le> n")
  case True
  then show ?thesis by (simp add: pow2_def powr_realpow [symmetric])
next
  case False
  then have "2 powr real_of_int n = 1 / 2 powr real_of_int (- n)"
    by (simp add: powr_minus_divide)
  also have "\<dots> = 1 / 2 ^ nat (- n)" using False by (simp add: powr_realpow [symmetric])
  finally show ?thesis using False by (simp add: pow2_def)
qed

lemma pow2_mono: "n \<le> k \<Longrightarrow> pow2 n \<le> pow2 k"
  by (simp add: pow2_powr)

lemma pow2_strict_mono: "n < k \<Longrightarrow> pow2 n < pow2 k"
  by (simp add: pow2_powr)

lemma expo_bounds:
  assumes "0 < x"
  shows "pow2 (expo x) \<le> x" and "x < pow2 (expo x + 1)"
proof -
  have "pow2 (expo x) \<le> x \<and> x < pow2 (expo x + 1)"
  proof (cases "1 \<le> x")
    case True
    define n where "n = nat \<lfloor>x\<rfloor>"
    define L where "L = floorlog 2 n"
    have n: "0 < n" using True by (simp add: n_def)
    have nx: "real n \<le> x" "x < real n + 1" using True by (simp_all add: n_def)
    from floorlog_bounds [of n 2] n have b: "2 ^ (L - 1) \<le> n" "n < 2 ^ L"
      by (simp_all add: L_def)
    have L: "0 < L" using n by (simp add: L_def floorlog_def)
    have e: "expo x = int L - 1" using True by (simp add: expo_def bitlen_def L_def n_def)
    have "pow2 (expo x) = 2 ^ (L - 1)" using L by (simp add: e pow2_def nat_diff_distrib')
    moreover have "(2::real) ^ (L - 1) \<le> real n" using b(1)
      by (metis of_nat_le_iff of_nat_numeral of_nat_power)
    moreover have "pow2 (expo x + 1) = 2 ^ L" by (simp add: e pow2_def)
    moreover have "real n + 1 \<le> 2 ^ L"
    proof -
      from b(2) have "n + 1 \<le> 2 ^ L" by simp
      then have "real (n + 1) \<le> real (2 ^ L)" by (rule of_nat_mono)
      then show ?thesis by simp
    qed
    ultimately show ?thesis using nx by linarith
  next
    case False
    define y where "y = 1 / x"
    define m where "m = \<lceil>y\<rceil>"
    define n where "n = nat (m - 1)"
    define L where "L = floorlog 2 n"
    have y: "1 < y" using assms False by (simp add: y_def)
    have m: "2 \<le> m" using y by (simp add: m_def)
    have my: "real_of_int m - 1 < y" "y \<le> real_of_int m" by (simp_all add: m_def) linarith+
    have n: "0 < n" "int n = m - 1" using m by (simp_all add: n_def)
    from floorlog_bounds [of n 2] n have b: "2 ^ (L - 1) \<le> n" "n < 2 ^ L"
      by (simp_all add: L_def)
    have L: "0 < L" using n by (simp add: L_def floorlog_def)
    have e: "expo x = - int L"
      using False by (simp add: expo_def bitlen_def L_def n_def m_def y_def)
    have rn: "real n = real_of_int m - 1" using n(2) by linarith
    have lo: "(2::real) ^ (L - 1) \<le> real n" using b(1)
      by (metis of_nat_le_iff of_nat_numeral of_nat_power)
    have hi: "real n + 1 \<le> 2 ^ L"
    proof -
      from b(2) have "n + 1 \<le> 2 ^ L" by simp
      then have "real (n + 1) \<le> real (2 ^ L)" by (rule of_nat_mono)
      then show ?thesis by simp
    qed
    have p1: "pow2 (expo x) = 1 / 2 ^ L" by (simp add: e pow2_def)
    have p2: "pow2 (expo x + 1) = 1 / 2 ^ (L - 1)"
      using L by (simp add: e pow2_def nat_diff_distrib')
    have yL: "y \<le> 2 ^ L" using my hi rn by linarith
    have Ly: "2 ^ (L - 1) < y" using my lo rn by linarith
    have "1 / 2 ^ L \<le> 1 / y" using yL y by (simp add: frac_le)
    moreover have "1 / y < 1 / 2 ^ (L - 1)" using Ly by (simp add: frac_less2)
    ultimately show ?thesis unfolding p1 p2 y_def using assms by simp
  qed
  then show "pow2 (expo x) \<le> x" and "x < pow2 (expo x + 1)" by simp_all
qed

lemma expo_eq:
  assumes "pow2 e \<le> x" "x < pow2 (e + 1)"
  shows "expo x = e"
proof -
  have x: "0 < x" using assms(1) pow2_pos [of e] by linarith
  note b = expo_bounds [OF x]
  have "\<not> expo x < e"
  proof
    assume "expo x < e"
    then have "pow2 (expo x + 1) \<le> pow2 e" by (intro pow2_mono) simp
    then show False using b(2) assms(1) by linarith
  qed
  moreover have "\<not> e < expo x"
  proof
    assume "e < expo x"
    then have "pow2 (e + 1) \<le> pow2 (expo x)" by (intro pow2_mono) simp
    then show False using b(1) assms(2) by linarith
  qed
  ultimately show ?thesis by linarith
qed

lemma round_even_cases: "round_even y = \<lfloor>y\<rfloor> \<or> (round_even y = \<lfloor>y\<rfloor> + 1 \<and> real_of_int \<lfloor>y\<rfloor> < y)"
  by (auto simp: round_even_def Let_def)

lemma round_even_le: "y \<le> real_of_int m \<Longrightarrow> round_even y \<le> m"
proof -
  assume a: "y \<le> real_of_int m"
  then have f: "\<lfloor>y\<rfloor> \<le> m" by (simp add: floor_le_iff)
  from round_even_cases [of y] show ?thesis
  proof
    assume "round_even y = \<lfloor>y\<rfloor>" then show ?thesis using f by simp
  next
    assume b: "round_even y = \<lfloor>y\<rfloor> + 1 \<and> real_of_int \<lfloor>y\<rfloor> < y"
    then have "real_of_int \<lfloor>y\<rfloor> < real_of_int m" using a by linarith
    then have "\<lfloor>y\<rfloor> < m" by simp
    then show ?thesis using b by simp
  qed
qed

lemma round_even_ge: "real_of_int m \<le> y \<Longrightarrow> m \<le> round_even y"
proof -
  assume a: "real_of_int m \<le> y"
  then have f: "m \<le> \<lfloor>y\<rfloor>" by (simp add: le_floor_iff)
  from round_even_cases [of y] show ?thesis using f by auto
qed

lemma fl_between:
  assumes "0 \<le> a" "real_of_int a \<le> x" "x \<le> real_of_int b" "b < 2 ^ 53"
  shows "real_of_int a \<le> fl x \<and> fl x \<le> real_of_int b"
proof (cases "x = 0")
  case True
  then show ?thesis using assms by (simp add: fl_def)
next
  case False
  then have x: "0 < x" using assms(1,2) by linarith
  define p where "p = max (expo x - 52) (- 1074)"
  define k where "k = nat (- p)"
  have "expo x < 53"
  proof (rule ccontr)
    assume "\<not> expo x < 53"
    then have "pow2 53 \<le> pow2 (expo x)" by (intro pow2_mono) simp
    moreover have "pow2 53 = 2 ^ 53" by (simp add: pow2_def)
    moreover have "real_of_int b < 2 ^ 53" using assms(4)
      by (metis of_int_less_iff of_int_numeral of_int_power)
    ultimately show False using expo_bounds(1) [OF x] assms(3) by linarith
  qed
  then have p: "p \<le> 0" by (simp add: p_def)
  then have u: "pow2 p = 1 / 2 ^ k" by (simp add: pow2_def k_def)
  define r where "r = round_even (x * 2 ^ k)"
  have f: "fl x = real_of_int r / 2 ^ k"
    using x by (simp add: fl_def p_def [symmetric] u r_def)
  have "real_of_int (a * 2 ^ k) \<le> x * 2 ^ k" using assms(2) by simp
  then have lo: "a * 2 ^ k \<le> r" unfolding r_def by (rule round_even_ge)
  have "x * 2 ^ k \<le> real_of_int (b * 2 ^ k)" using assms(3) by simp
  then have hi: "r \<le> b * 2 ^ k" unfolding r_def by (rule round_even_le)
  from lo have "real_of_int (a * 2 ^ k) \<le> real_of_int r" by (simp only: of_int_le_iff)
  then have 1: "real_of_int a \<le> real_of_int r / 2 ^ k" by (simp add: pos_le_divide_eq)
  from hi have "real_of_int r \<le> real_of_int (b * 2 ^ k)" by (simp only: of_int_le_iff)
  then have 2: "real_of_int r / 2 ^ k \<le> real_of_int b" by (simp add: pos_divide_le_eq)
  show ?thesis using 1 2 by (simp add: f)
qed

lemma fl_int: "0 \<le> a \<Longrightarrow> a < 2 ^ 53 \<Longrightarrow> fl (real_of_int a) = real_of_int a"
  using fl_between [of a "real_of_int a" a] by simp

lemma fl_value:
  assumes "pow2 e \<le> x" "x < pow2 (e + 1)"
  shows "fl x = real_of_int (round_even (x / pow2 (max (e - 52) (- 1074)))) * pow2 (max (e - 52) (- 1074))"
proof -
  have x: "0 < x" using assms(1) pow2_pos [of e] by linarith
  show ?thesis using x by (simp add: fl_def expo_eq [OF assms] Let_def)
qed

lemma pow2_add: "pow2 (a + b) = pow2 a * pow2 b"
  by (simp add: pow2_powr powr_add)

lemma round_even_int: "round_even (real_of_int k) = k"
  by (simp add: round_even_def)

lemma fl_dyadic:
  assumes "0 < m" "m < 2 ^ 53" "- 1074 \<le> q"
  shows "fl (real_of_int m * pow2 q) = real_of_int m * pow2 q"
proof -
  define x where "x = real_of_int m * pow2 q"
  define em where "em = expo (real_of_int m)"
  have m0: "0 < real_of_int m" using assms(1) by simp
  have x0: "0 < x" unfolding x_def using m0 pow2_pos [of q] by simp
  note b = expo_bounds [OF m0, folded em_def]
  have "em < 53"
  proof (rule ccontr)
    assume "\<not> em < 53"
    then have "pow2 53 \<le> pow2 em" by (intro pow2_mono) simp
    moreover have "pow2 53 = 2 ^ 53" by (simp add: pow2_def)
    moreover have "real_of_int m < 2 ^ 53" using assms(2)
      by (metis of_int_less_iff of_int_numeral of_int_power)
    ultimately show False using b(1) by linarith
  qed
  have "pow2 (em + q) \<le> x"
    unfolding x_def pow2_add using b(1) pow2_pos [of q] by (simp add: mult_right_mono)
  moreover have "x < pow2 (em + q + 1)"
  proof -
    have "real_of_int m * pow2 q < pow2 (em + 1) * pow2 q"
      using b(2) pow2_pos [of q] by (simp add: mult_strict_right_mono)
    also have "\<dots> = pow2 (em + q + 1)" by (simp add: pow2_add [symmetric] ac_simps)
    finally show ?thesis by (simp add: x_def)
  qed
  ultimately have ex: "expo x = em + q" by (rule expo_eq)
  define p where "p = max (expo x - 52) (- 1074)"
  define k where "k = nat (q - p)"
  have pq: "p \<le> q" using \<open>em < 53\<close> assms(3) by (simp add: p_def ex)
  have "pow2 q = pow2 ((q - p) + p)" by simp
  also have "\<dots> = pow2 (q - p) * pow2 p" by (rule pow2_add)
  also have "pow2 (q - p) = 2 ^ k" using pq by (simp add: pow2_def k_def)
  finally have q: "pow2 q = 2 ^ k * pow2 p" .
  have "x / pow2 p = real_of_int (m * 2 ^ k)"
    using pow2_pos [of p] by (simp add: x_def q)
  then have r: "round_even (x / pow2 p) = m * 2 ^ k" by (simp only: round_even_int)
  have "fl x = real_of_int (round_even (x / pow2 p)) * pow2 p"
    using x0 by (simp add: fl_def Let_def p_def)
  also have "\<dots> = x" unfolding r by (simp add: x_def q)
  finally show ?thesis by (simp add: x_def)
qed

lemma fl_pow2: "- 1074 \<le> n \<Longrightarrow> fl (pow2 n) = pow2 n"
  using fl_dyadic [of 1 n] by simp

lemma fl_zero: "fl 0 = 0"
  by (simp add: fl_def)

section \<open>The offline queue: what \<open>processMessage\<close> does to an entry\<close>

lemma findIndex_Some:
  "findIndex p xs = Some i \<Longrightarrow> i < length xs \<and> p (xs ! i) \<and> find p xs = Some (xs ! i)"
proof (induction xs arbitrary: i)
  case Nil
  then show ?case by simp
next
  case (Cons x xs)
  show ?case
  proof (cases "p x")
    case True
    with Cons.prems show ?thesis by simp
  next
    case False
    with Cons.prems obtain j where j: "findIndex p xs = Some j" "i = Suc j"
      by auto
    with Cons.IH [OF j(1)] False show ?thesis by simp
  qed
qed

lemma findIndex_None: "findIndex p xs = None \<longleftrightarrow> find p xs = None"
  by (induction xs) auto

lemma findIndex_None_iff: "findIndex p xs = None \<longleftrightarrow> \<not> list_ex p xs"
  by (induction xs) auto

lemma find_findIndex:
  "find p xs = Some m \<Longrightarrow> \<exists>i. findIndex p xs = Some i \<and> xs ! i = m"
proof -
  assume a: "find p xs = Some m"
  then have "findIndex p xs \<noteq> None" by (simp add: findIndex_None)
  then obtain i where i: "findIndex p xs = Some i" by auto
  from findIndex_Some [OF i] a have "xs ! i = m" by simp
  with i show ?thesis by blast
qed

lemma findIndex_update:
  "findIndex p xs = Some i \<Longrightarrow> p y \<Longrightarrow> findIndex p (xs[i := y]) = Some i"
proof (induction xs arbitrary: i)
  case Nil
  then show ?case by simp
next
  case (Cons x xs)
  show ?case
  proof (cases "p x")
    case True
    with Cons.prems show ?thesis by simp
  next
    case False
    with Cons.prems obtain j where j: "findIndex p xs = Some j" "i = Suc j"
      by auto
    with Cons.IH [OF j(1) Cons.prems(2)] False show ?thesis by simp
  qed
qed

lemma find_update:
  assumes "findIndex p xs = Some i" "p y"
  shows "find p (xs[i := y]) = Some y"
proof -
  from findIndex_Some [OF findIndex_update [OF assms]] findIndex_Some [OF assms(1)]
  show ?thesis by simp
qed

lemma queued_Some:
  "queued st u mid = Some m \<longleftrightarrow>
   (\<exists>ms i. map_of (messages st) u = Some ms \<and> findIndex (\<lambda>m. id' m = mid) ms = Some i \<and> ms ! i = m)"
  by (auto simp: queued_def split: option.splits dest: find_findIndex findIndex_Some)

lemma queued_put:
  assumes "map_of (messages st) u = Some ms" "findIndex (\<lambda>m. id' m = mid) ms = Some i"
    "id' m' = mid"
  shows "queued (put_message st u i m') u mid = Some m'"
  using assms find_update [OF assms(2), of m']
  by (simp add: queued_def put_message_def map_of_map_entry)

lemma deliveryStatus_put: "deliveryStatus (put_message st u i m) = deliveryStatus st"
  by (simp add: put_message_def)

lemma queued_deliveryStatus_update [simp]:
  "queued (st\<lparr>deliveryStatus := d\<rparr>) u mid = queued st u mid"
  by (simp add: queued_def)

lemma processMessage_done:
  assumes "queued st u mid = Some m"
    "QueuedMessage.status m = Sent \<or> QueuedMessage.status m = Delivered"
  shows "processMessage st u mid now draw later jitter = (True, st)"
  using assms by (auto simp: queued_Some processMessage_def)

lemma processMessage_not_due:
  assumes "queued st u mid = Some m"
    "QueuedMessage.status m \<noteq> Sent" "QueuedMessage.status m \<noteq> Delivered"
    "real_of_int now < nextRetryTime m"
  shows "processMessage st u mid now draw later jitter = (False, st)"
  using assms by (auto simp: queued_Some processMessage_def)

lemma processMessage_exhausted:
  assumes "queued st u mid = Some m"
    "QueuedMessage.status m \<noteq> Sent" "QueuedMessage.status m \<noteq> Delivered"
    "nextRetryTime m \<le> real_of_int now" "maxRetries m \<le> attempts m"
  shows "fst (processMessage st u mid now draw later jitter) = False"
    and "queued (snd (processMessage st u mid now draw later jitter)) u mid =
      Some (m\<lparr>QueuedMessage.status := Failed,
              QueuedMessage.error := Some (lit ''Max retries exceeded''),
              updatedAt := now\<rparr>)"
    and "deliveryStatus (snd (processMessage st u mid now draw later jitter)) = deliveryStatus st"
proof -
  from assms(1) obtain ms i where ms: "map_of (messages st) u = Some ms"
    and i: "findIndex (\<lambda>m. id' m = mid) ms = Some i" and m: "ms ! i = m"
    by (auto simp: queued_Some)
  have idm: "id' m = mid" using findIndex_Some [OF i] m by simp
  let ?m' = "m\<lparr>QueuedMessage.status := Failed,
              QueuedMessage.error := Some (lit ''Max retries exceeded''), updatedAt := now\<rparr>"
  have p: "processMessage st u mid now draw later jitter = (False, put_message st u i ?m')"
    using assms(2-5) ms i m by (simp add: processMessage_def)
  show "fst (processMessage st u mid now draw later jitter) = False" by (simp add: p)
  show "queued (snd (processMessage st u mid now draw later jitter)) u mid = Some ?m'"
    using queued_put [OF ms i, of ?m'] idm by (simp add: p)
  show "deliveryStatus (snd (processMessage st u mid now draw later jitter)) = deliveryStatus st"
    by (simp add: p deliveryStatus_put)
qed

lemma processMessage_attempt:
  fixes draw :: real
  assumes "queued st u mid = Some m"
    "QueuedMessage.status m \<noteq> Sent" "QueuedMessage.status m \<noteq> Delivered"
    "nextRetryTime m \<le> real_of_int now" "attempts m < maxRetries m"
  defines "rejected \<equiv> draw < 0.1 \<and> attempts m + 1 < maxRetries m"
  shows "fst (processMessage st u mid now draw later jitter) = (\<not> rejected)"
    and "queued (snd (processMessage st u mid now draw later jitter)) u mid =
      Some (if rejected
            then m\<lparr>attempts := attempts m + 1,
                   nextRetryTime := fl (real_of_int later + getRetryDelay (attempts m + 1) jitter),
                   QueuedMessage.error := Some (lit ''Network timeout''),
                   updatedAt := later\<rparr>
            else m\<lparr>attempts := attempts m + 1, QueuedMessage.status := Sent, updatedAt := later\<rparr>)"
proof -
  from assms(1) obtain ms i where ms: "map_of (messages st) u = Some ms"
    and i: "findIndex (\<lambda>m. id' m = mid) ms = Some i" and m: "ms ! i = m"
    by (auto simp: queued_Some)
  have idm: "id' m = mid" using findIndex_Some [OF i] m by simp
  let ?r = "m\<lparr>attempts := attempts m + 1,
                   nextRetryTime := fl (real_of_int later + getRetryDelay (attempts m + 1) jitter),
                   QueuedMessage.error := Some (lit ''Network timeout''),
                   updatedAt := later\<rparr>"
  let ?s = "m\<lparr>attempts := attempts m + 1, QueuedMessage.status := Sent, updatedAt := later\<rparr>"
  let ?P = "processMessage st u mid now draw later jitter"
  show "fst ?P = (\<not> rejected)"
    using assms(2-5) ms i m
    by (simp add: processMessage_def rejected_def Let_def)
  show "queued (snd ?P) u mid = Some (if rejected then ?r else ?s)"
  proof (cases rejected)
    case True
    then have "snd ?P = put_message st u i ?r \<or>
        (\<exists>d. snd ?P = (put_message st u i ?r)\<lparr>deliveryStatus := d\<rparr>)"
      using assms(2-5) ms i m
      by (auto simp: processMessage_def rejected_def Let_def split: option.splits)
    then show ?thesis
      using queued_put [OF ms i, of ?r] idm True by auto
  next
    case False
    then have "snd ?P = put_message st u i ?s \<or>
        (\<exists>d. snd ?P = (put_message st u i ?s)\<lparr>deliveryStatus := d\<rparr>)"
      using assms(2-5) ms i m
      by (auto simp: processMessage_def rejected_def Let_def split: option.splits)
    then show ?thesis
      using queued_put [OF ms i, of ?s] idm False by auto
  qed
qed

lemma processMessage_absent:
  assumes "queued st u mid = None"
  shows "processMessage st u mid now draw later jitter = (False, st)"
  using assms by (auto simp: queued_def processMessage_def findIndex_None [symmetric] split: option.splits)

lemma of_int_min_real: "real_of_int (min a b) = min (real_of_int a) (real_of_int b)"
  by (simp add: min_def)

lemma delay_exact:
  assumes "0 \<le> n"
  shows "min (fl (1000 * fl (pow2 n))) 60000 = min (1000 * 2 ^ nat n) 60000"
proof -
  have "fl (pow2 n) = pow2 n" using assms by (intro fl_pow2) simp
  moreover have "fl (real_of_int 1000 * pow2 n) = real_of_int 1000 * pow2 n"
    using assms by (intro fl_dyadic) simp_all
  ultimately show ?thesis using assms by (simp add: pow2_nonneg)
qed

lemma getRetryDelay_sum:
  assumes "0 \<le> n"
  shows "getRetryDelay n rnd = fl (min (1000 * 2 ^ nat n) 60000 + fl (rnd * 1000))"
  by (simp add: getRetryDelay_def Let_def delay_exact [OF assms])

lemma jitter_bounds:
  assumes "0 \<le> rnd" "rnd < 1"
  shows "0 \<le> fl (rnd * 1000)" and "fl (rnd * 1000) \<le> 1000"
  using fl_between [of 0 "rnd * 1000" 1000] assms by simp_all

lemma getRetryDelay_bounds:
  assumes "0 \<le> n" "0 \<le> rnd" "rnd < 1"
  shows "min (1000 * 2 ^ nat n) 60000 \<le> getRetryDelay n rnd"
    and "getRetryDelay n rnd \<le> min (1000 * 2 ^ nat n) 60000 + 1000"
proof -
  define B :: int where "B = min (1000 * 2 ^ nat n) 60000"
  have B: "real_of_int B = min (1000 * 2 ^ nat n) 60000" by (simp add: B_def of_int_min_real)
  have B0: "0 \<le> B" "B \<le> 60000" by (simp_all add: B_def)
  note j = jitter_bounds [OF assms(2,3)]
  have "real_of_int B \<le> fl (real_of_int B + fl (rnd * 1000))
      \<and> fl (real_of_int B + fl (rnd * 1000)) \<le> real_of_int (B + 1000)"
    using B0 j by (intro fl_between) simp_all
  then show "min (1000 * 2 ^ nat n) 60000 \<le> getRetryDelay n rnd"
    and "getRetryDelay n rnd \<le> min (1000 * 2 ^ nat n) 60000 + 1000"
    by (simp_all add: getRetryDelay_sum [OF assms(1)] B [symmetric])
qed

lemma getRetryDelay_base:
  assumes "0 \<le> n"
  shows "getRetryDelay n 0 = min (1000 * 2 ^ nat n) 60000"
proof -
  define B :: int where "B = min (1000 * 2 ^ nat n) 60000"
  have B: "real_of_int B = min (1000 * 2 ^ nat n) 60000" by (simp add: B_def of_int_min_real)
  have "fl (real_of_int B) = real_of_int B" by (rule fl_int) (simp_all add: B_def)
  then show ?thesis by (simp add: getRetryDelay_sum [OF assms] fl_zero B [symmetric])
qed

lemma base_mono:
  assumes "0 \<le> n" "n \<le> k"
  shows "min (1000 * 2 ^ nat n) 60000 \<le> min (1000 * (2::real) ^ nat k) 60000"
proof -
  have "nat n \<le> nat k" using assms by simp
  then have "(2::real) ^ nat n \<le> 2 ^ nat k" by simp
  then have "1000 * (2::real) ^ nat n \<le> 1000 * 2 ^ nat k" by simp
  then show ?thesis by (intro min.mono) simp_all
qed

lemma nextRetryTime_bounds:
  assumes "0 \<le> later" "later \<le> 8640000000000000" "0 \<le> B" "B \<le> 60000"
    "real_of_int B \<le> d" "d \<le> real_of_int B + 1000"
  shows "real_of_int later + real_of_int B \<le> fl (real_of_int later + d)"
    and "fl (real_of_int later + d) \<le> real_of_int later + real_of_int B + 1000"
proof -
  have "real_of_int (later + B) \<le> fl (real_of_int later + d)
      \<and> fl (real_of_int later + d) \<le> real_of_int (later + B + 1000)"
    using assms by (intro fl_between) simp_all
  then show "real_of_int later + real_of_int B \<le> fl (real_of_int later + d)"
    and "fl (real_of_int later + d) \<le> real_of_int later + real_of_int B + 1000"
    by simp_all
qed

lemma jitter_top: "fl ((1 - 1 / 2 ^ 52) * 1000) = 1000 - 1 / 2 ^ 42"
proof -
  have "fl ((1 - 1 / 2 ^ 52) * 1000)
      = real_of_int (round_even ((1 - 1 / 2 ^ 52) * 1000 / pow2 (max (9 - 52) (- 1074))))
        * pow2 (max (9 - 52) (- 1074))"
    by (rule fl_value) (simp_all add: pow2_def)
  also have "\<dots> = 1000 - 1 / 2 ^ 42"
    by (simp add: pow2_def round_even_def Let_def)
  finally show ?thesis .
qed

lemma delay_top: "fl (60000 + (1000 - 1 / 2 ^ 42)) = 61000"
proof -
  have "fl (60000 + (1000 - 1 / 2 ^ 42))
      = real_of_int (round_even ((60000 + (1000 - 1 / 2 ^ 42)) / pow2 (max (15 - 52) (- 1074))))
        * pow2 (max (15 - 52) (- 1074))"
    by (rule fl_value) (simp_all add: pow2_def)
  also have "\<dots> = 61000"
    by (simp add: pow2_def round_even_def Let_def)
  finally show ?thesis .
qed

lemma delay_tie: "fl (2000 + (1000 - 1 / 2 ^ 42)) = 3000"
proof -
  have "fl (2000 + (1000 - 1 / 2 ^ 42))
      = real_of_int (round_even ((2000 + (1000 - 1 / 2 ^ 42)) / pow2 (max (11 - 52) (- 1074))))
        * pow2 (max (11 - 52) (- 1074))"
    by (rule fl_value) (simp_all add: pow2_def)
  also have "\<dots> = 3000"
    by (simp add: pow2_def round_even_def Let_def)
  finally show ?thesis .
qed

lemma processMessage_exhausted_result:
  assumes "queued st u mid = Some m"
    "QueuedMessage.status m \<noteq> Sent" "QueuedMessage.status m \<noteq> Delivered"
    "nextRetryTime m \<le> real_of_int now" "maxRetries m \<le> attempts m"
  shows "processMessage st u mid now draw later jitter = processMessage st u mid now draw' later' jitter'"
  using assms by (auto simp: queued_Some processMessage_def)

lemma retry_scan_None: "retry_scan mid now al = None \<longleftrightarrow>
    \<not> list_ex (\<lambda>(u, ms). list_ex (\<lambda>m. id' m = mid) ms) al"
  by (induction al) (auto simp: findIndex_None_iff split: option.splits)

lemma retry_scan_Some:
  assumes "distinct (map fst al)" "retry_scan mid now al = Some (u, al')"
  shows "\<exists>ms i. map_of al u = Some ms \<and> findIndex (\<lambda>m. id' m = mid) ms = Some i
    \<and> al' = AList.update u (ms[i := reset_message now (ms ! i)]) al"
  using assms
proof (induction al arbitrary: al')
  case Nil
  then show ?case by simp
next
  case (Cons p al)
  obtain v vs where p: "p = (v, vs)" by (cases p)
  show ?case
  proof (cases "findIndex (\<lambda>m. id' m = mid) vs")
    case (Some i)
    with Cons.prems(2) p have "u = v" "al' = (v, vs[i := reset_message now (vs ! i)]) # al"
      by auto
    with Some p show ?thesis by simp
  next
    case None
    with Cons.prems(2) p obtain al'' where r: "retry_scan mid now al = Some (u, al'')"
      and al': "al' = (v, vs) # al''"
      by auto
    from Cons.prems(1) have d: "distinct (map fst al)" and v: "v \<notin> fst ` set al"
      by (simp_all add: p)
    from Cons.IH [OF d r] obtain ms i where ms: "map_of al u = Some ms"
      and i: "findIndex (\<lambda>m. id' m = mid) ms = Some i"
      and u: "al'' = AList.update u (ms[i := reset_message now (ms ! i)]) al"
      by blast
    from ms have "(u, ms) \<in> set al" by (rule map_of_SomeD)
    then have "u \<in> fst ` set al" by force
    with v have "u \<noteq> v" by auto
    with ms i u al' p show ?thesis by simp
  qed
qed

lemma queued_update:
  assumes "findIndex (\<lambda>m. id' m = mid) ms = Some i" "id' m' = mid"
  shows "queued (st\<lparr>messages := AList.update u (ms[i := m']) (messages st)\<rparr>) u mid = Some m'"
  using find_update [OF assms(1), of m'] assms(2)
  by (simp add: queued_def update_conv')

section \<open>The receive counter of a session\<close>

lemma js_le_NaN: "\<not> js_le a NaN"
  by (cases a) simp_all

lemma js_le_lt: "a \<noteq> NaN \<Longrightarrow> b \<noteq> NaN \<Longrightarrow> \<not> js_le a b \<Longrightarrow> js_lt b a"
  by (cases a; cases b) auto

lemma js_lt_le: "js_lt a b \<Longrightarrow> js_le a b"
  by (cases a; cases b) auto

lemma js_le_refl: "a \<noteq> NaN \<Longrightarrow> js_le a a"
  by (cases a) simp_all

lemma js_lt_le_trans: "js_lt a b \<Longrightarrow> js_le b c \<Longrightarrow> js_lt a c"
  by (cases a; cases b; cases c) auto

lemma js_le_trans: "js_le a b \<Longrightarrow> js_le b c \<Longrightarrow> js_le a c"
  by (cases a; cases b; cases c) auto

lemma js_le_lt_trans: "js_le a b \<Longrightarrow> js_lt b c \<Longrightarrow> js_lt a c"
  by (cases a; cases b; cases c) auto

lemma js_le_number: "js_le a b \<Longrightarrow> a \<noteq> NaN \<and> b \<noteq> NaN"
  by (cases a; cases b) auto

lemma decrypt_stale:
  "js_le (EncryptedMessage.messageCounter e) (SessionKey.messageCounter (sessionKey s)) \<Longrightarrow>
   messagePipeline_decryptMessage parse build e s now = (None, s)"
  by (simp add: messagePipeline_decryptMessage_def)

lemma decrypt_result:
  assumes "messagePipeline_decryptMessage parse build e s now = (r, s')"
  shows "s' = s \<and> r = None \<or>
    \<not> js_le (EncryptedMessage.messageCounter e) (SessionKey.messageCounter (sessionKey s)) \<and>
    s' = s\<lparr>sessionKey := (sessionKey s)
              \<lparr>SessionKey.messageCounter := EncryptedMessage.messageCounter e\<rparr>,
            lastUpdated := now\<rparr>"
  using assms
  by (auto simp: messagePipeline_decryptMessage_def cryptoUtils_decryptMessage_def Let_def
      split: if_splits option.splits)

lemma decrypt_accepted:
  assumes "messagePipeline_decryptMessage parse build e s now = (Some r, s')"
  shows "\<not> js_le (EncryptedMessage.messageCounter e) (SessionKey.messageCounter (sessionKey s))"
    and "SessionKey.messageCounter (sessionKey s') = EncryptedMessage.messageCounter e"
    and "lastUpdated s' = now"
  using decrypt_result [OF assms] by auto

text \<open>
  While no counter is \<open>NaN\<close> the check is a total order on the counters: a call
  never lowers the session's counter.
\<close>

lemma decrypt_mono:
  assumes "messagePipeline_decryptMessage parse build e s now = (r, s')"
    "SessionKey.messageCounter (sessionKey s) \<noteq> NaN" "EncryptedMessage.messageCounter e \<noteq> NaN"
  shows "js_le (SessionKey.messageCounter (sessionKey s)) (SessionKey.messageCounter (sessionKey s'))"
  using decrypt_result [OF assms(1)] assms(2,3)
  by (auto intro: js_le_refl js_lt_le [OF js_le_lt])

lemma receive_all_counters:
  assumes "receive_all parse build s es = (acc, final)"
    "SessionKey.messageCounter (sessionKey s) \<noteq> NaN"
    "\<forall>p \<in> set es. EncryptedMessage.messageCounter (fst p) \<noteq> NaN"
  shows "sorted_wrt js_lt (map EncryptedMessage.messageCounter acc)
    \<and> (\<forall>e \<in> set acc.
          js_lt (SessionKey.messageCounter (sessionKey s)) (EncryptedMessage.messageCounter e)
          \<and> js_le (EncryptedMessage.messageCounter e) (SessionKey.messageCounter (sessionKey final)))
    \<and> js_le (SessionKey.messageCounter (sessionKey s)) (SessionKey.messageCounter (sessionKey final))"
  using assms
proof (induction es arbitrary: s acc final)
  case Nil
  then show ?case by (simp add: js_le_refl)
next
  case (Cons p es)
  let ?c = "\<lambda>t. SessionKey.messageCounter (sessionKey t)"
  let ?k = "EncryptedMessage.messageCounter"
  obtain e now where p: "p = (e, now)" by (cases p)
  obtain r s' where d: "messagePipeline_decryptMessage parse build e s now = (r, s')"
    by (cases "messagePipeline_decryptMessage parse build e s now")
  obtain acc' final' where rest: "receive_all parse build s' es = (acc', final')"
    by (cases "receive_all parse build s' es")
  from Cons.prems(1) p d rest have fin: "final = final'"
    and acc: "acc = (if r = None then acc' else e # acc')"
    by simp_all
  have en: "?k e \<noteq> NaN" using Cons.prems(3) p by simp
  have rn: "\<forall>p \<in> set es. ?k (fst p) \<noteq> NaN"
    using Cons.prems(3) by simp
  note mono = decrypt_mono [OF d Cons.prems(2) en]
  have sn: "?c s' \<noteq> NaN" using js_le_number [OF mono] by simp
  from Cons.IH [OF rest sn rn]
  have ih1: "sorted_wrt js_lt (map ?k acc')"
    and ih2: "\<And>x. x \<in> set acc' \<Longrightarrow> js_lt (?c s') (?k x)"
    and ih3: "\<And>x. x \<in> set acc' \<Longrightarrow> js_le (?k x) (?c final')"
    and ih4: "js_le (?c s') (?c final')"
    by simp_all
  have above: "js_lt (?c s) (?k x)" if "x \<in> set acc'" for x
    using mono ih2 [OF that] by (rule js_le_lt_trans)
  have top: "js_le (?c s) (?c final')" using mono ih4 by (rule js_le_trans)
  show ?case
  proof (cases r)
    case None
    with acc have "acc = acc'" by simp
    then show ?thesis using ih1 ih3 above top fin by simp
  next
    case (Some x)
    from decrypt_accepted(1,2) [OF d [unfolded Some]]
    have nle: "\<not> js_le (?k e) (?c s)" and eq: "?c s' = ?k e"
      by simp_all
    have lt: "js_lt (?c s) (?k e)" using en Cons.prems(2) nle by (rule js_le_lt)
    from Some acc have a: "acc = e # acc'" by simp
    have "sorted_wrt js_lt (map ?k acc)" using ih1 ih2 by (simp add: a eq)
    moreover have "\<forall>x \<in> set acc. js_lt (?c s) (?k x) \<and> js_le (?k x) (?c final)"
      using lt ih3 ih4 above by (auto simp: a eq fin)
    moreover have "js_le (?c s) (?c final)" using top fin by simp
    ultimately show ?thesis by blast
  qed
qed

lemma replay_rejected:
  assumes "SessionKey.messageCounter (sessionKey s) \<noteq> NaN"
    "\<forall>p \<in> set es. EncryptedMessage.messageCounter (fst p) \<noteq> NaN"
    "e \<in> set (fst (receive_all parse build s es))"
  shows "messagePipeline_decryptMessage parse build e (snd (receive_all parse build s es)) now
    = (None, snd (receive_all parse build s es))"
proof -
  obtain acc final where r: "receive_all parse build s es = (acc, final)"
    by (cases "receive_all parse build s es")
  from receive_all_counters [OF r assms(1,2)] assms(3) r
  have "js_le (EncryptedMessage.messageCounter e) (SessionKey.messageCounter (sessionKey final))"
    by simp
  then show ?thesis by (simp add: r decrypt_stale)
qed

section \<open>The handshake\<close>

lemma sample_bundle_generated: "generateX3DHBundle (sample_keys n) t = Inr (sample_bundle n t)"
  by (simp add: generateX3DHBundle_def sample_keys_def sample_bundle_def first_def)

lemma well_formed_plain: "list_all (\<lambda>u. \<not> is_high u \<and> \<not> is_low u) s \<Longrightarrow> well_formed s"
  by (induction s rule: well_formed.induct) simp_all

lemma lit_plain: "list_all (\<lambda>u. \<not> is_high u \<and> \<not> is_low u) (lit s)"
proof -
  have "\<not> is_high (unit_of (of_char c)) \<and> \<not> is_low (unit_of (of_char c))" for c :: char
  proof -
    have "(of_char c :: nat) mod 256 < 256" by (rule mod_less_divisor) simp
    then have b: "of_char c < (256::nat)" by simp
    then have "of_char c < (65536::nat)" by linarith
    then have e: "unat (unit_of (of_char c)) = of_char c" by (rule unat_unit_of)
    show ?thesis unfolding is_high_def is_low_def e using b by linarith
  qed
  then show ?thesis by (simp add: lit_def list_all_iff)
qed

lemma well_formed_lit: "well_formed (lit s)"
  by (rule well_formed_plain) (rule lit_plain)

lemma lit_append: "lit (a @ b) = lit a @ lit b"
  by (simp add: lit_def)

lemma to_base64_inj:
  assumes "well_formed x" "well_formed y" "to_base64 x = to_base64 y"
  shows "x = y"
proof -
  from assms(3) have "from_base64 (to_base64 x) = from_base64 (to_base64 y)" by simp
  with assms(1,2) show ?thesis by (simp add: base64_string_roundtrip)
qed

lemma completeHandshake_result:
  "\<exists>s. completeHandshake store u1 d1 u2 d2 keys bundle init r1 r2 now
        = Inr (s, store(session_id u1 u2 d1 d2 \<mapsto> s))
     \<and> SessionState.sessionId s = session_id u1 u2 d1 d2
     \<and> state s = Established
     \<and> SessionKey.messageCounter (sessionKey s) = Num 0
     \<and> SessionKey.sharedSecret (sessionKey s) =
         to_base64 (KeyPair.publicKey (signingKeys keys) @ lit '':'' @ identityKey bundle
           @ lit '':'' @ secretKey (agreementKeys keys) @ lit '':'' @ identityKey bundle
           @ lit '':'' @ KeyPair.publicKey (signingKeys keys) @ lit '':'' @ signedPreKey bundle
           @ lit '':'' @ secretKey (agreementKeys keys) @ lit '':'' @ signedPreKey bundle
           @ template (first (oneTimePreKeys bundle)) @ secretKey (agreementKeys keys))"
  by (simp add: completeHandshake_def deriveSharedSecret_def Let_def)

lemma base64_encode_empty: "base64_encode bs = [] \<longleftrightarrow> bs = []"
  by (cases bs rule: base64_encode.cases) simp_all

lemma code_points_empty: "code_points s = [] \<longleftrightarrow> s = []"
  by (cases s rule: code_points.cases) simp_all

lemma utf8_bytes_nonempty: "utf8_bytes c \<noteq> []"
  by (simp add: utf8_bytes_def)

lemma utf8_encode_empty: "utf8_encode s = [] \<longleftrightarrow> s = []"
proof
  assume "utf8_encode s = []"
  then have "\<forall>c \<in> set (code_points s). utf8_bytes c = []"
    by (simp add: utf8_encode_def)
  then have "code_points s = []"
    using utf8_bytes_nonempty by (cases "code_points s") auto
  then show "s = []" by (simp add: code_points_empty)
next
  assume "s = []"
  then show "utf8_encode s = []" by (simp add: utf8_encode_def)
qed

lemma signData_nonempty: "signData d k \<noteq> []"
proof -
  have "lit '':signed:'' \<noteq> []" by (simp add: lit_def)
  then have "d @ lit '':signed:'' @ k \<noteq> []" by simp
  then show ?thesis
    by (simp only: signData_def to_base64_def base64_encode_empty utf8_encode_empty not_False_eq_True)
qed

lemma completeHandshake_succeeds:
  "\<not> isl (completeHandshake store u1 d1 u2 d2 keys theirs init r1 r2 now)"
  by (simp add: completeHandshake_def Let_def)

lemma sample_ciphertext:
  "to_base64 sample_payload
     = lit ''eyJjb250ZW50IjoiaGkiLCJtZXNzYWdlSWQiOiJtMSIsInRpbWVzdGFtcCI6MX0=''"
  by (simp add: sample_payload_def to_base64_def utf8_encode_def utf8_bytes_def is_high_def
      is_low_def b64_char_def lit_def unit_of_def byte_of_def)

lemma sample_decrypted:
  "cryptoUtils_decryptMessage (sample_envelope n) k = Inr sample_payload"
  by (simp add: cryptoUtils_decryptMessage_def sample_envelope_def sample_payload_def
      base64_string_roundtrip well_formed_lit)

section \<open>Claims\<close>

text \<open>
  C1. The claim is that the initiator's and the responder's \<open>completeHandshake\<close>
  give the same \<open>sharedSecret\<close>. Here the code is run on both sides of one
  handshake: Alice, with her device keys and the bundle generated from Bob's, and
  Bob, with his device keys and the bundle generated from Alice's. Both calls
  succeed, and the two shared secrets differ: each side's secret starts with its own
  identity key and contains its own agreement secret key.
\<close>

theorem shared_secret_mismatch:
  "generateX3DHBundle (sample_keys ''A'') 1 = Inr (sample_bundle ''A'' 1)
   \<and> generateX3DHBundle (sample_keys ''B'') 2 = Inr (sample_bundle ''B'' 2)
   \<and> \<not> isl (completeHandshake Map.empty (lit ''alice'') (lit ''A.dev'') (lit ''bob'') (lit ''B.dev'')
            (sample_keys ''A'') (sample_bundle ''B'' 2) True (lit ''0.1'') (lit ''0.2'') 3)
   \<and> \<not> isl (completeHandshake Map.empty (lit ''bob'') (lit ''B.dev'') (lit ''alice'') (lit ''A.dev'')
            (sample_keys ''B'') (sample_bundle ''A'' 1) False (lit ''0.3'') (lit ''0.4'') 4)
   \<and> SessionKey.sharedSecret (sessionKey (fst (projr
        (completeHandshake Map.empty (lit ''alice'') (lit ''A.dev'') (lit ''bob'') (lit ''B.dev'')
            (sample_keys ''A'') (sample_bundle ''B'' 2) True (lit ''0.1'') (lit ''0.2'') 3))))
     \<noteq> SessionKey.sharedSecret (sessionKey (fst (projr
        (completeHandshake Map.empty (lit ''bob'') (lit ''B.dev'') (lit ''alice'') (lit ''A.dev'')
            (sample_keys ''B'') (sample_bundle ''A'' 1) False (lit ''0.3'') (lit ''0.4'') 4))))"
proof -
  let ?hA = "completeHandshake Map.empty (lit ''alice'') (lit ''A.dev'') (lit ''bob'') (lit ''B.dev'')
            (sample_keys ''A'') (sample_bundle ''B'' 2) True (lit ''0.1'') (lit ''0.2'') 3"
  let ?hB = "completeHandshake Map.empty (lit ''bob'') (lit ''B.dev'') (lit ''alice'') (lit ''A.dev'')
            (sample_keys ''B'') (sample_bundle ''A'' 1) False (lit ''0.3'') (lit ''0.4'') 4"
  let ?a = "lit ''A.ik:B.ik:A.dh.sec:B.ik:A.ik:B.spk:A.dh.sec:B.spkB.otk0A.dh.sec''"
  let ?b = "lit ''B.ik:A.ik:B.dh.sec:A.ik:B.ik:A.spk:B.dh.sec:A.spkA.otk0B.dh.sec''"
  have sa: "SessionKey.sharedSecret (sessionKey (fst (projr ?hA))) = to_base64 ?a"
    and ia: "\<not> isl ?hA"
    by (simp_all add: completeHandshake_def deriveSharedSecret_def Let_def sample_keys_def
        sample_bundle_def first_def template_def lit_append [symmetric])
  have sb: "SessionKey.sharedSecret (sessionKey (fst (projr ?hB))) = to_base64 ?b"
    and ib: "\<not> isl ?hB"
    by (simp_all add: completeHandshake_def deriveSharedSecret_def Let_def sample_keys_def
        sample_bundle_def first_def template_def lit_append [symmetric])
  have "?a \<noteq> ?b" by (simp add: lit_def unit_of_def)
  then have "to_base64 ?a \<noteq> to_base64 ?b"
    using to_base64_inj [OF well_formed_lit well_formed_lit] by blast
  with sa sb ia ib show ?thesis
    by (simp only: sample_bundle_generated) simp
qed

text \<open>
  C2. The claim is that the counters of the envelopes a session accepts are strictly
  increasing and that an envelope accepted once is rejected when it is replayed; the
  source announces the check as replay protection. The check is
  \<open>encrypted.messageCounter <= session.sessionKey.messageCounter\<close>, which is false
  whenever a side is \<open>NaN\<close>. Here a session with counter 0 receives the envelope
  with counter 1, an envelope with counter \<open>NaN\<close>, and then both again, each
  carrying the payload \<open>{"content":"hi","messageId":"m1","timestamp":1}\<close>: all four
  are accepted. The envelope with counter \<open>NaN\<close> is decrypted and returned, the
  session's counter becomes \<open>NaN\<close>, and the same envelope presented again is
  decrypted and returned again.
\<close>

theorem nan_counter_replay_accepted:
  "ciphertext (sample_envelope NaN)
     = lit ''eyJjb250ZW50IjoiaGkiLCJtZXNzYWdlSWQiOiJtMSIsInRpbWVzdGFtcCI6MX0=''
   \<and> fst (receive_all sample_parse sample_build (sample_session 0)
        [(sample_envelope (Num 1), 10), (sample_envelope NaN, 20),
         (sample_envelope (Num 1), 30), (sample_envelope NaN, 40)])
     = [sample_envelope (Num 1), sample_envelope NaN, sample_envelope (Num 1), sample_envelope NaN]
   \<and> fst (messagePipeline_decryptMessage sample_parse sample_build (sample_envelope NaN)
          (sample_session 0) 10)
     = Some (lit ''hi'', lit ''m1'', lit ''1'')
   \<and> SessionKey.messageCounter (sessionKey (snd
          (messagePipeline_decryptMessage sample_parse sample_build (sample_envelope NaN)
             (sample_session 0) 10)))
     = NaN
   \<and> fst (messagePipeline_decryptMessage sample_parse sample_build (sample_envelope NaN)
          (snd (messagePipeline_decryptMessage sample_parse sample_build (sample_envelope NaN)
             (sample_session 0) 10)) 20)
     = Some (lit ''hi'', lit ''m1'', lit ''1'')"
proof -
  have c: "EncryptedMessage.messageCounter (sample_envelope n) = n" for n
    by (simp add: sample_envelope_def)
  have step: "messagePipeline_decryptMessage sample_parse sample_build (sample_envelope n) s now
      = (if js_le n (SessionKey.messageCounter (sessionKey s)) then (None, s)
         else (Some (lit ''hi'', lit ''m1'', lit ''1''),
               s\<lparr>sessionKey := (sessionKey s)\<lparr>SessionKey.messageCounter := n\<rparr>,
                 lastUpdated := now\<rparr>))" for n s now
    by (simp add: messagePipeline_decryptMessage_def sample_decrypted c sample_parse_def
        sample_build_def)
  have s0: "SessionKey.messageCounter (sessionKey (sample_session 0)) = Num 0"
    by (simp add: sample_session_def)
  have t: "ciphertext (sample_envelope NaN)
      = lit ''eyJjb250ZW50IjoiaGkiLCJtZXNzYWdlSWQiOiJtMSIsInRpbWVzdGFtcCI6MX0=''"
    by (simp add: sample_envelope_def sample_ciphertext)
  show ?thesis unfolding t by (simp add: step s0)
qed

text \<open>
  C3, as amended. \<open>completeHandshake\<close> verifies no signature. For every input it
  succeeds with an established session, stored in the session store under the
  session id; the result is the same whatever \<open>signedPreKeySignature\<close> holds; and
  \<open>verifySignature\<close>, which \<open>completeHandshake\<close> does not call, returns
  \<open>true\<close> for every message, signature and key.
\<close>

theorem completeHandshake_ignores_signatures:
  "(\<exists>s. completeHandshake store u1 d1 u2 d2 keys bundle init r1 r2 now
          = Inr (s, store(session_id u1 u2 d1 d2 \<mapsto> s))
       \<and> SessionState.sessionId s = session_id u1 u2 d1 d2
       \<and> state s = Established)
   \<and> completeHandshake store u1 d1 u2 d2 keys (bundle\<lparr>signedPreKeySignature := sig\<rparr>) init r1 r2 now
       = completeHandshake store u1 d1 u2 d2 keys bundle init r1 r2 now
   \<and> verifySignature msg sig key"
proof -
  from completeHandshake_result [of store u1 d1 u2 d2 keys "bundle" init r1 r2 now]
  have "\<exists>s. completeHandshake store u1 d1 u2 d2 keys bundle init r1 r2 now
          = Inr (s, store(session_id u1 u2 d1 d2 \<mapsto> s))
       \<and> SessionState.sessionId s = session_id u1 u2 d1 d2
       \<and> state s = Established"
    by blast
  moreover have "completeHandshake store u1 d1 u2 d2 keys (bundle\<lparr>signedPreKeySignature := sig\<rparr>)
       init r1 r2 now = completeHandshake store u1 d1 u2 d2 keys bundle init r1 r2 now"
    by (simp add: completeHandshake_def)
  ultimately show ?thesis by (simp add: verifySignature_def)
qed

text \<open>
  A bundle whose \<open>signedPreKeySignature\<close> is the empty string, which is not what
  \<open>signData\<close> gives for the signed pre-key under Bob's signing key (or for anything):
  the handshake succeeds and the session is in the store.
\<close>

theorem forged_signature_counterexample:
  "signedPreKeySignature forged_bundle
     \<noteq> signData (signedPreKey forged_bundle) (secretKey (signingKeys (sample_keys ''B'')))
   \<and> \<not> isl (completeHandshake Map.empty (lit ''alice'') (lit ''A.dev'') (lit ''bob'') (lit ''B.dev'')
            (sample_keys ''A'') forged_bundle True (lit ''0.1'') (lit ''0.2'') 3)
   \<and> snd (projr (completeHandshake Map.empty (lit ''alice'') (lit ''A.dev'') (lit ''bob'')
            (lit ''B.dev'') (sample_keys ''A'') forged_bundle True (lit ''0.1'') (lit ''0.2'') 3))
        (session_id (lit ''alice'') (lit ''bob'') (lit ''A.dev'') (lit ''B.dev''))
      = Some (fst (projr (completeHandshake Map.empty (lit ''alice'') (lit ''A.dev'') (lit ''bob'')
            (lit ''B.dev'') (sample_keys ''A'') forged_bundle True (lit ''0.1'') (lit ''0.2'') 3)))"
proof -
  have "signedPreKeySignature forged_bundle = []" by (simp add: forged_bundle_def)
  then have 1: "signedPreKeySignature forged_bundle
     \<noteq> signData (signedPreKey forged_bundle) (secretKey (signingKeys (sample_keys ''B'')))"
    using signData_nonempty [of "signedPreKey forged_bundle"
        "secretKey (signingKeys (sample_keys ''B''))"] by simp
  from completeHandshake_result [of Map.empty "lit ''alice''" "lit ''A.dev''" "lit ''bob''"
      "lit ''B.dev''" "sample_keys ''A''" forged_bundle True "lit ''0.1''" "lit ''0.2''" 3]
  obtain s where "completeHandshake Map.empty (lit ''alice'') (lit ''A.dev'') (lit ''bob'')
      (lit ''B.dev'') (sample_keys ''A'') forged_bundle True (lit ''0.1'') (lit ''0.2'') 3
      = Inr (s, Map.empty(session_id (lit ''alice'') (lit ''bob'') (lit ''A.dev'') (lit ''B.dev'')
           \<mapsto> s))"
    by blast
  then show ?thesis using 1 by simp
qed

text \<open>
  C4, as amended. No one-time pre-key is consumed. A bundle generated from device
  keys offers all of their one-time keys, and a bundle generated later from the same
  device keys is the same but for its timestamp. After a handshake on a bundle, a
  second handshake by the same party on the bundle generated later succeeds and
  derives the same shared secret, from the same one-time pre-key, and so does a
  handshake by any other party.
\<close>

theorem one_time_pre_key_not_consumed:
  assumes "generateX3DHBundle owner t = Inr bundle"
  shows "oneTimePreKeys bundle = map OneTimeKey.publicKey (oneTimeKeys owner)
    \<and> generateX3DHBundle owner t' = Inr (bundle\<lparr>X3DHBundle.timestamp := t'\<rparr>)
    \<and> (\<exists>s1 st1 s2 st2 s3 st3.
          completeHandshake st u1 d1 u2 d2 keys bundle i1 r1 r2 t1 = Inr (s1, st1)
        \<and> completeHandshake st1 u1 d1 u2 d2 keys (bundle\<lparr>X3DHBundle.timestamp := t'\<rparr>) i2 r3 r4 t2
            = Inr (s2, st2)
        \<and> SessionKey.sharedSecret (sessionKey s2) = SessionKey.sharedSecret (sessionKey s1)
        \<and> completeHandshake st2 u3 d3 u2 d2 keys' (bundle\<lparr>X3DHBundle.timestamp := t'\<rparr>) i3 r5 r6 t3
            = Inr (s3, st3))"
proof -
  from assms obtain preKey where p: "first (preKeys owner) = Some preKey"
    by (auto simp: generateX3DHBundle_def split: option.splits)
  with assms have b: "bundle = \<lparr>identityKey = KeyPair.publicKey (signingKeys owner),
               signedPreKey = PreKey.publicKey preKey,
               signedPreKeySignature = signature preKey,
               oneTimePreKeys = map OneTimeKey.publicKey (oneTimeKeys owner),
               X3DHBundle.timestamp = t\<rparr>"
    by (simp add: generateX3DHBundle_def)
  have 1: "oneTimePreKeys bundle = map OneTimeKey.publicKey (oneTimeKeys owner)"
    by (simp add: b)
  have 2: "generateX3DHBundle owner t' = Inr (bundle\<lparr>X3DHBundle.timestamp := t'\<rparr>)"
    by (simp add: generateX3DHBundle_def p b)
  obtain s1 where h1: "completeHandshake st u1 d1 u2 d2 keys bundle i1 r1 r2 t1
      = Inr (s1, st(session_id u1 u2 d1 d2 \<mapsto> s1))"
    and k1: "SessionKey.sharedSecret (sessionKey s1) =
         to_base64 (KeyPair.publicKey (signingKeys keys) @ lit '':'' @ identityKey bundle
           @ lit '':'' @ secretKey (agreementKeys keys) @ lit '':'' @ identityKey bundle
           @ lit '':'' @ KeyPair.publicKey (signingKeys keys) @ lit '':'' @ signedPreKey bundle
           @ lit '':'' @ secretKey (agreementKeys keys) @ lit '':'' @ signedPreKey bundle
           @ template (first (oneTimePreKeys bundle)) @ secretKey (agreementKeys keys))"
    using completeHandshake_result [of st u1 d1 u2 d2 keys "bundle" i1 r1 r2 t1] by blast
  let ?st1 = "st(session_id u1 u2 d1 d2 \<mapsto> s1)"
  let ?b' = "bundle\<lparr>X3DHBundle.timestamp := t'\<rparr>"
  obtain s2 where h2: "completeHandshake ?st1 u1 d1 u2 d2 keys ?b' i2 r3 r4 t2
      = Inr (s2, ?st1(session_id u1 u2 d1 d2 \<mapsto> s2))"
    and k2: "SessionKey.sharedSecret (sessionKey s2) =
         to_base64 (KeyPair.publicKey (signingKeys keys) @ lit '':'' @ identityKey ?b'
           @ lit '':'' @ secretKey (agreementKeys keys) @ lit '':'' @ identityKey ?b'
           @ lit '':'' @ KeyPair.publicKey (signingKeys keys) @ lit '':'' @ signedPreKey ?b'
           @ lit '':'' @ secretKey (agreementKeys keys) @ lit '':'' @ signedPreKey ?b'
           @ template (first (oneTimePreKeys ?b')) @ secretKey (agreementKeys keys))"
    using completeHandshake_result [of ?st1 u1 d1 u2 d2 keys ?b' i2 r3 r4 t2] by blast
  let ?st2 = "?st1(session_id u1 u2 d1 d2 \<mapsto> s2)"
  obtain s3 where h3: "completeHandshake ?st2 u3 d3 u2 d2 keys' ?b' i3 r5 r6 t3
      = Inr (s3, ?st2(session_id u3 u2 d3 d2 \<mapsto> s3))"
    using completeHandshake_result [of ?st2 u3 d3 u2 d2 keys' ?b' i3 r5 r6 t3] by blast
  have e: "SessionKey.sharedSecret (sessionKey s2) = SessionKey.sharedSecret (sessionKey s1)"
    by (simp add: k1 k2)
  from 1 2 h1 h2 h3 e show ?thesis by blast
qed

theorem one_time_pre_key_not_consumed_witness:
  "oneTimePreKeys (sample_bundle ''B'' 2) = [lit ''B.otk0'', lit ''B.otk1'']
   \<and> generateX3DHBundle (sample_keys ''B'') 7 = Inr (sample_bundle ''B'' 7)"
  using one_time_pre_key_not_consumed [OF sample_bundle_generated, of "''B''" 2 7]
  by (simp add: sample_bundle_def)

text \<open>
  After Alice's handshake on Bob's bundle, Carol's handshake on the same bundle, with
  the same first one-time pre-key, succeeds on the store Alice's left, and the bundle
  generated from Bob's keys afterwards still offers that key first.
\<close>

theorem second_handshake_counterexample:
  "first (oneTimePreKeys (sample_bundle ''B'' 2)) = Some (lit ''B.otk0'')
   \<and> \<not> isl (completeHandshake Map.empty (lit ''alice'') (lit ''A.dev'') (lit ''bob'') (lit ''B.dev'')
            (sample_keys ''A'') (sample_bundle ''B'' 2) True (lit ''0.1'') (lit ''0.2'') 3)
   \<and> \<not> isl (completeHandshake
         (snd (projr (completeHandshake Map.empty (lit ''alice'') (lit ''A.dev'') (lit ''bob'')
            (lit ''B.dev'') (sample_keys ''A'') (sample_bundle ''B'' 2) True (lit ''0.1'')
            (lit ''0.2'') 3)))
         (lit ''carol'') (lit ''C.dev'') (lit ''bob'') (lit ''B.dev'')
         (sample_keys ''C'') (sample_bundle ''B'' 2) True (lit ''0.5'') (lit ''0.6'') 4)
   \<and> generateX3DHBundle (sample_keys ''B'') 5 = Inr (sample_bundle ''B'' 5)
   \<and> first (oneTimePreKeys (sample_bundle ''B'' 5)) = Some (lit ''B.otk0'')"
  by (simp add: sample_bundle_generated completeHandshake_succeeds)
    (simp add: sample_bundle_def first_def)

text \<open>
  C5, as amended. For every well-formed plaintext (every surrogate code unit is half
  of a pair), every session key and every choice of ids, clock and nonce,
  \<open>cryptoUtils.decryptMessage\<close> on the envelope \<open>cryptoUtils.encryptMessage\<close>
  produced returns exactly the plaintext.
\<close>

theorem encrypt_decrypt_roundtrip:
  assumes "well_formed plaintext"
  shows "cryptoUtils_decryptMessage
      (cryptoUtils_encryptMessage plaintext key sender recipient senderDevice recipientDevice
         now rnd) key
    = Inr plaintext"
  using assms
  by (simp add: cryptoUtils_decryptMessage_def cryptoUtils_encryptMessage_def
      base64_string_roundtrip)

theorem encrypt_decrypt_roundtrip_witness:
  "well_formed (lit ''hello'')
   \<and> cryptoUtils_decryptMessage
      (cryptoUtils_encryptMessage (lit ''hello'') (sessionKey (sample_session 0)) (lit ''alice'')
         (lit ''bob'') (lit ''a1'') (lit ''b1'') 10 (lit ''0.5'')) (sessionKey (sample_session 0))
    = Inr (lit ''hello'')"
proof -
  have w: "well_formed (lit ''hello'')"
    by (simp add: lit_def unit_of_def is_high_def is_low_def)
  from encrypt_decrypt_roundtrip [OF w] w show ?thesis by simp
qed

text \<open>
  A plaintext that is a single unpaired surrogate, U+D800, does not come back: the
  UTF-8 encoding of the Buffer replaces it by U+FFFD.
\<close>

theorem lone_surrogate_counterexample:
  "cryptoUtils_decryptMessage
      (cryptoUtils_encryptMessage [0xD800] (sessionKey (sample_session 0)) (lit ''alice'')
         (lit ''bob'') (lit ''a1'') (lit ''b1'') 10 (lit ''0.5'')) (sessionKey (sample_session 0))
    = Inr [0xFFFD]
   \<and> Inr [0xFFFD] \<noteq> (Inr [0xD800] :: js_error + jsstring)"
  by (simp add: cryptoUtils_decryptMessage_def cryptoUtils_encryptMessage_def
      to_base64_def from_base64_def utf8_encode_def utf8_bytes_def is_high_def is_low_def
      b64_char_def base64_decode_def unbase64_def low_byte_def utf8_decode_def utf8_step_def
      utf8_start_def
      utf8_idle_def utf16_units_def unit_of_def byte_of_def)

text \<open>
  C6. The result of \<open>cryptoUtils.decryptMessage\<close> is the same for any two session
  keys and for any two envelopes with the same ciphertext: it is the decoding of the
  ciphertext, and it is never an error.
\<close>

theorem decryptMessage_ignores_key:
  "cryptoUtils_decryptMessage m k1 = cryptoUtils_decryptMessage m k2
   \<and> cryptoUtils_decryptMessage m k1 = cryptoUtils_decryptMessage (m'\<lparr>ciphertext := ciphertext m\<rparr>) k2
   \<and> cryptoUtils_decryptMessage m k1 = Inr (from_base64 (ciphertext m))
   \<and> \<not> isl (cryptoUtils_decryptMessage m k1)"
  by (simp add: cryptoUtils_decryptMessage_def)



text \<open>
  C8, as amended. For an entry of the queue, \<open>processMessage\<close> keeps
  \<open>attempts \<le> maxRetries\<close>. An entry already sent or delivered is left as it is.
  Otherwise an entry that is not yet due (\<open>nextRetryTime\<close> later than the clock)
  is left as it is, whatever its attempts. A due entry with
  \<open>attempts \<ge> maxRetries\<close> becomes \<open>failed\<close> with the error "Max retries
  exceeded", and no send is attempted: the result does not depend on the outcome of
  the transport. A due entry with \<open>attempts < maxRetries\<close> has its attempts
  incremented by exactly one, and its status afterwards is \<open>sent\<close> or unchanged.
\<close>

theorem processMessage_retry_budget:
  fixes draw :: real
  assumes "queued st u mid = Some m"
  shows "\<exists>m'. queued (snd (processMessage st u mid now draw later jitter)) u mid = Some m'
    \<and> maxRetries m' = maxRetries m
    \<and> (attempts m \<le> maxRetries m \<longrightarrow> attempts m' \<le> maxRetries m')
    \<and> (QueuedMessage.status m = Sent \<or> QueuedMessage.status m = Delivered \<longrightarrow>
          processMessage st u mid now draw later jitter = (True, st))
    \<and> (QueuedMessage.status m \<noteq> Sent \<and> QueuedMessage.status m \<noteq> Delivered
          \<and> real_of_int now < nextRetryTime m \<longrightarrow>
          processMessage st u mid now draw later jitter = (False, st))
    \<and> (QueuedMessage.status m \<noteq> Sent \<and> QueuedMessage.status m \<noteq> Delivered
          \<and> nextRetryTime m \<le> real_of_int now \<and> maxRetries m \<le> attempts m \<longrightarrow>
          fst (processMessage st u mid now draw later jitter) = False
          \<and> m' = m\<lparr>QueuedMessage.status := Failed,
                    QueuedMessage.error := Some (lit ''Max retries exceeded''),
                    updatedAt := now\<rparr>
          \<and> (\<forall>draw' later' jitter'. processMessage st u mid now draw' later' jitter'
                = processMessage st u mid now draw later jitter))
    \<and> (QueuedMessage.status m \<noteq> Sent \<and> QueuedMessage.status m \<noteq> Delivered
          \<and> nextRetryTime m \<le> real_of_int now \<and> attempts m < maxRetries m \<longrightarrow>
          attempts m' = attempts m + 1
          \<and> (QueuedMessage.status m' = Sent \<or> QueuedMessage.status m' = QueuedMessage.status m))"
proof -
  let ?P = "processMessage st u mid now draw later jitter"
  consider (settled) "QueuedMessage.status m = Sent \<or> QueuedMessage.status m = Delivered"
    | (waiting) "QueuedMessage.status m \<noteq> Sent" "QueuedMessage.status m \<noteq> Delivered"
        "real_of_int now < nextRetryTime m"
    | (exhausted) "QueuedMessage.status m \<noteq> Sent" "QueuedMessage.status m \<noteq> Delivered"
        "nextRetryTime m \<le> real_of_int now" "maxRetries m \<le> attempts m"
    | (attempt) "QueuedMessage.status m \<noteq> Sent" "QueuedMessage.status m \<noteq> Delivered"
        "nextRetryTime m \<le> real_of_int now" "attempts m < maxRetries m"
    by linarith
  then show ?thesis
  proof cases
    case settled
    from processMessage_done [OF assms settled] have "?P = (True, st)" .
    with assms settled show ?thesis by auto
  next
    case waiting
    from processMessage_not_due [OF assms waiting] have "?P = (False, st)" .
    with assms waiting show ?thesis by auto
  next
    case exhausted
    note r = processMessage_exhausted [OF assms exhausted, of draw later jitter]
    have ind: "\<forall>draw' later' jitter'. processMessage st u mid now draw' later' jitter' = ?P"
      using processMessage_exhausted_result [OF assms exhausted] by blast
    show ?thesis
      using r(1,2) exhausted ind by (intro exI [of _ "m\<lparr>QueuedMessage.status := Failed,
                    QueuedMessage.error := Some (lit ''Max retries exceeded''),
                    updatedAt := now\<rparr>"]) simp
  next
    case attempt
    note r = processMessage_attempt [OF assms attempt, of draw later jitter]
    show ?thesis
      using r(2) attempt by (cases "draw < 0.1 \<and> attempts m + 1 < maxRetries m") auto
  qed
qed

theorem processMessage_retry_budget_witness:
  "\<exists>m'. queued (snd (processMessage (sample_queue (sample_entry 0 5 0 Pending))
        (lit ''alice'') (lit ''m1'') 10 (1/2) 20 0)) (lit ''alice'') (lit ''m1'') = Some m'
     \<and> attempts m' = 1 \<and> attempts m' \<le> maxRetries m'"
  using processMessage_retry_budget [of "sample_queue (sample_entry 0 5 0 Pending)"
      "lit ''alice''" "lit ''m1''" "sample_entry 0 5 0 Pending" 10 "1/2" 20 0]
  by (auto simp: queued_def sample_queue_def sample_entry_def)

text \<open>
  The claim as first stated leaves out the entries that are not due: with
  \<open>nextRetryTime\<close> 2000 and the clock at 1000, an entry with 5 attempts of 5 is
  not set to \<open>failed\<close>, and an entry with 0 attempts of 5 is not given an attempt.
\<close>

theorem processMessage_not_due_counterexample:
  "maxRetries (sample_entry 5 5 2000 Pending) \<le> attempts (sample_entry 5 5 2000 Pending)
   \<and> QueuedMessage.status (sample_entry 5 5 2000 Pending) = Pending
   \<and> processMessage (sample_queue (sample_entry 5 5 2000 Pending)) (lit ''alice'') (lit ''m1'')
        1000 (1/2) 1500 0
      = (False, sample_queue (sample_entry 5 5 2000 Pending))
   \<and> attempts (sample_entry 0 5 2000 Pending) < maxRetries (sample_entry 0 5 2000 Pending)
   \<and> processMessage (sample_queue (sample_entry 0 5 2000 Pending)) (lit ''alice'') (lit ''m1'')
        1000 (1/2) 1500 0
      = (False, sample_queue (sample_entry 0 5 2000 Pending))"
  by (simp add: processMessage_def sample_queue_def sample_entry_def)

text \<open>
  C9, as amended. For an attempt number \<open>n \<ge> 0\<close> and a jitter draw in [0, 1),
  the retry delay is the rounded sum of \<open>min(1000 * 2^n, 60000)\<close> and a jitter
  in the closed interval [0, 1000]: it is \<open>min(1000 * 2^n, 60000)\<close> plus at
  least 0 and at most 1000, so it is at most 61000 milliseconds. With the jitter
  draw 0 it is \<open>min(1000 * 2^n, 60000)\<close>, which does not decrease when the
  attempt number grows. When \<open>processMessage\<close> fails the transport attempt
  number \<open>n\<close> of an entry, at a clock reading in the range of \<open>Date.now()\<close>,
  the entry's \<open>nextRetryTime\<close> is the rounded sum of the clock and that delay,
  later than the clock by at least \<open>min(1000 * 2^n, 60000)\<close> and by at most
  1000 more, hence by at most 61000 milliseconds.
\<close>

theorem getRetryDelay_backoff:
  fixes rnd :: real
  assumes "0 \<le> n" "0 \<le> rnd" "rnd < 1"
  shows "getRetryDelay n rnd = fl (min (1000 * 2 ^ nat n) 60000 + fl (rnd * 1000))
    \<and> 0 \<le> fl (rnd * 1000) \<and> fl (rnd * 1000) \<le> 1000
    \<and> (\<exists>jitter. 0 \<le> jitter \<and> jitter \<le> 1000
            \<and> getRetryDelay n rnd = min (1000 * 2 ^ nat n) 60000 + jitter)
    \<and> getRetryDelay n rnd \<le> 61000
    \<and> getRetryDelay n 0 = min (1000 * 2 ^ nat n) 60000
    \<and> (\<forall>k. n \<le> k \<longrightarrow> getRetryDelay n 0 \<le> getRetryDelay k 0)
    \<and> (\<forall>st u mid m now draw later.
          queued st u mid = Some m
          \<and> QueuedMessage.status m \<noteq> Sent \<and> QueuedMessage.status m \<noteq> Delivered
          \<and> nextRetryTime m \<le> real_of_int now
          \<and> attempts m + 1 = n \<and> n < maxRetries m \<and> draw < 0.1
          \<and> 0 \<le> later \<and> later \<le> 8640000000000000 \<longrightarrow>
          (\<exists>m'. queued (snd (processMessage st u mid now draw later rnd)) u mid = Some m'
             \<and> nextRetryTime m' = fl (real_of_int later + getRetryDelay n rnd)
             \<and> min (1000 * 2 ^ nat n) 60000 \<le> nextRetryTime m' - real_of_int later
             \<and> nextRetryTime m' - real_of_int later \<le> min (1000 * 2 ^ nat n) 60000 + 1000
             \<and> nextRetryTime m' - real_of_int later \<le> 61000))"
proof (intro conjI allI impI)
  note b = getRetryDelay_bounds [OF assms]
  show "getRetryDelay n rnd = fl (min (1000 * 2 ^ nat n) 60000 + fl (rnd * 1000))"
    using assms(1) by (rule getRetryDelay_sum)
  show "0 \<le> fl (rnd * 1000)" and "fl (rnd * 1000) \<le> 1000"
    using assms(2,3) by (rule jitter_bounds)+
  show "\<exists>jitter. 0 \<le> jitter \<and> jitter \<le> 1000
            \<and> getRetryDelay n rnd = min (1000 * 2 ^ nat n) 60000 + jitter"
    using b by (intro exI [of _ "getRetryDelay n rnd - min (1000 * 2 ^ nat n) 60000"]) simp
  show "getRetryDelay n rnd \<le> 61000" using b(2) by simp
  show "getRetryDelay n 0 = min (1000 * 2 ^ nat n) 60000"
    using assms(1) by (rule getRetryDelay_base)
next
  fix k assume nk: "n \<le> k"
  with assms(1) have k: "0 \<le> k" by simp
  show "getRetryDelay n 0 \<le> getRetryDelay k 0"
    using base_mono [OF assms(1) nk]
    by (simp only: getRetryDelay_base [OF assms(1)] getRetryDelay_base [OF k])
next
  fix st u mid m now and later :: int and draw :: real
  assume a: "queued st u mid = Some m
          \<and> QueuedMessage.status m \<noteq> Sent \<and> QueuedMessage.status m \<noteq> Delivered
          \<and> nextRetryTime m \<le> real_of_int now
          \<and> attempts m + 1 = n \<and> n < maxRetries m \<and> draw < 0.1
          \<and> 0 \<le> later \<and> later \<le> 8640000000000000"
  then have q: "queued st u mid = Some m" and s: "QueuedMessage.status m \<noteq> Sent"
      "QueuedMessage.status m \<noteq> Delivered" and d: "nextRetryTime m \<le> real_of_int now"
    and n: "attempts m < maxRetries m" and rej: "draw < 0.1 \<and> attempts m + 1 < maxRetries m"
    and nn: "attempts m + 1 = n" and l: "0 \<le> later" "later \<le> 8640000000000000"
    by simp_all
  define B :: int where "B = min (1000 * 2 ^ nat n) 60000"
  have B: "real_of_int B = min (1000 * 2 ^ nat n) 60000" by (simp add: B_def of_int_min_real)
  have B0: "0 \<le> B" "B \<le> 60000" by (simp_all add: B_def)
  note b = getRetryDelay_bounds [OF assms, folded B]
  note t = nextRetryTime_bounds [OF l B0 b]
  from processMessage_attempt(2) [OF q s d n, of draw later rnd] rej nn
  have "queued (snd (processMessage st u mid now draw later rnd)) u mid =
      Some (m\<lparr>attempts := attempts m + 1,
              nextRetryTime := fl (real_of_int later + getRetryDelay n rnd),
              QueuedMessage.error := Some (lit ''Network timeout''),
              updatedAt := later\<rparr>)"
    by simp
  then show "\<exists>m'. queued (snd (processMessage st u mid now draw later rnd)) u mid = Some m'
             \<and> nextRetryTime m' = fl (real_of_int later + getRetryDelay n rnd)
             \<and> min (1000 * 2 ^ nat n) 60000 \<le> nextRetryTime m' - real_of_int later
             \<and> nextRetryTime m' - real_of_int later \<le> min (1000 * 2 ^ nat n) 60000 + 1000
             \<and> nextRetryTime m' - real_of_int later \<le> 61000"
    using t B0 by (simp add: B [symmetric])
qed

theorem getRetryDelay_backoff_witness:
  "getRetryDelay 3 (1/2) = 8500 \<and> getRetryDelay 3 (1/2) \<le> 61000
   \<and> getRetryDelay 3 0 = 8000 \<and> getRetryDelay 6 0 = 60000
   \<and> getRetryDelay 3 0 \<le> getRetryDelay 6 0
   \<and> (\<exists>m'. queued (snd (processMessage (sample_queue (sample_entry 2 5 0 Pending))
          (lit ''alice'') (lit ''m1'') 10 (1/20) 20 (1/2))) (lit ''alice'') (lit ''m1'') = Some m'
        \<and> nextRetryTime m' = 8520)"
proof -
  have h: "(0::int) \<le> 3" "(0::int) \<le> 6" "(0::real) \<le> 1/2" "(1/2::real) < 1" by simp_all
  have q: "queued (sample_queue (sample_entry 2 5 0 Pending)) (lit ''alice'') (lit ''m1'')
      = Some (sample_entry 2 5 0 Pending)"
    by (simp add: queued_def sample_queue_def sample_entry_def)
  have f: "fl 500 = 500" "fl 8500 = 8500" "fl 8520 = 8520"
    using fl_int [of 500] fl_int [of 8500] fl_int [of 8520] by simp_all
  note t3 = getRetryDelay_backoff [OF h(1) h(3) h(4)]
  note t6 = getRetryDelay_backoff [OF h(2) h(3) h(4)]
  from t3 have a: "getRetryDelay 3 (1/2) = 8500" "getRetryDelay 3 (1/2) \<le> 61000"
      "getRetryDelay 3 0 = 8000" "getRetryDelay 3 0 \<le> getRetryDelay 6 0"
    by (auto simp: f)
  from t6 have b: "getRetryDelay 6 0 = 60000" by simp
  from t3 have "\<forall>st u mid m now draw later.
          queued st u mid = Some m
          \<and> QueuedMessage.status m \<noteq> Sent \<and> QueuedMessage.status m \<noteq> Delivered
          \<and> nextRetryTime m \<le> real_of_int now
          \<and> attempts m + 1 = 3 \<and> 3 < maxRetries m \<and> draw < 0.1
          \<and> 0 \<le> later \<and> later \<le> 8640000000000000 \<longrightarrow>
          (\<exists>m'. queued (snd (processMessage st u mid now draw later (1/2))) u mid = Some m'
             \<and> nextRetryTime m' = fl (real_of_int later + getRetryDelay 3 (1/2))
             \<and> min (1000 * 2 ^ nat 3) 60000 \<le> nextRetryTime m' - real_of_int later
             \<and> nextRetryTime m' - real_of_int later \<le> min (1000 * 2 ^ nat 3) 60000 + 1000
             \<and> nextRetryTime m' - real_of_int later \<le> 61000)"
    by blast
  from this [rule_format, of "sample_queue (sample_entry 2 5 0 Pending)" "lit ''alice''"
      "lit ''m1''" "sample_entry 2 5 0 Pending" 10 "1/20" 20] q
  have "\<exists>m'. queued (snd (processMessage (sample_queue (sample_entry 2 5 0 Pending))
          (lit ''alice'') (lit ''m1'') 10 (1/20) 20 (1/2))) (lit ''alice'') (lit ''m1'') = Some m'
        \<and> nextRetryTime m' = fl (20 + getRetryDelay 3 (1/2))"
    by (auto simp: sample_entry_def)
  then have "\<exists>m'. queued (snd (processMessage (sample_queue (sample_entry 2 5 0 Pending))
          (lit ''alice'') (lit ''m1'') 10 (1/20) 20 (1/2))) (lit ''alice'') (lit ''m1'') = Some m'
        \<and> nextRetryTime m' = 8520"
    by (simp add: a(1) f)
  with a b show ?thesis by simp
qed

text \<open>
  The claim as first stated has the jitter below 1000 and the delay below 61000.
  \<open>Math.random()\<close> can return \<open>1 - 2^(-52)\<close>. Then the jitter is
  \<open>1000 - 2^(-42)\<close>, and its sums with 2000 and with 60000 are not doubles:
  they round to 3000 and to 61000. So attempt 1 is delayed by exactly 3000
  milliseconds, a jitter of 1000, and attempt 6 by exactly 61000. An entry as
  \<open>queueMessage\<close> creates it, failed at its first attempt at clock 20, is retried
  at 3020; an entry with nine retries, failed at attempt 6 at clock 20, is retried at
  61020.
\<close>

theorem getRetryDelay_rounding_counterexample:
  "(0::real) \<le> 1 - 1 / 2 ^ 52 \<and> (1 - 1 / 2 ^ 52 :: real) < 1
   \<and> getRetryDelay 6 (1 - 1 / 2 ^ 52) = 61000
   \<and> \<not> getRetryDelay 6 (1 - 1 / 2 ^ 52) < 61000
   \<and> getRetryDelay 1 (1 - 1 / 2 ^ 52) - min (1000 * 2 ^ nat 1) 60000 = 1000
   \<and> queued (snd (processMessage (sample_queue (sample_entry 0 5 0 Pending))
          (lit ''alice'') (lit ''m1'') 10 (1/20) 20 (1 - 1 / 2 ^ 52))) (lit ''alice'') (lit ''m1'')
       = Some ((sample_entry 0 5 0 Pending)
            \<lparr>attempts := 1, nextRetryTime := 3020,
              QueuedMessage.error := Some (lit ''Network timeout''), updatedAt := 20\<rparr>)
   \<and> queued (snd (processMessage (sample_queue (sample_entry 5 9 0 Pending))
          (lit ''alice'') (lit ''m1'') 10 (1/20) 20 (1 - 1 / 2 ^ 52))) (lit ''alice'') (lit ''m1'')
       = Some ((sample_entry 5 9 0 Pending)
            \<lparr>attempts := 6, nextRetryTime := 61020,
              QueuedMessage.error := Some (lit ''Network timeout''), updatedAt := 20\<rparr>)"
proof -
  let ?r = "1 - 1 / 2 ^ 52 :: real"
  let ?m = "sample_entry 5 9 0 Pending"
  let ?d = "sample_entry 0 5 0 Pending"
  have s6: "getRetryDelay 6 ?r = fl (min (1000 * 2 ^ nat 6) 60000 + fl (?r * 1000))"
    by (rule getRetryDelay_sum) simp
  have m6: "min (1000 * 2 ^ nat 6) 60000 = (60000::real)" by simp
  have d6: "getRetryDelay 6 ?r = 61000" by (simp only: s6 m6 jitter_top delay_top)
  have s1: "getRetryDelay 1 ?r = fl (min (1000 * 2 ^ nat 1) 60000 + fl (?r * 1000))"
    by (rule getRetryDelay_sum) simp
  have m1: "min (1000 * 2 ^ nat 1) 60000 = (2000::real)" by simp
  have d1: "getRetryDelay 1 ?r = 3000" by (simp only: s1 m1 jitter_top delay_tie)
  have q: "queued (sample_queue ?m) (lit ''alice'') (lit ''m1'') = Some ?m"
    by (simp add: queued_def sample_queue_def sample_entry_def)
  have st: "QueuedMessage.status ?m \<noteq> Sent" "QueuedMessage.status ?m \<noteq> Delivered"
    and due: "nextRetryTime ?m \<le> real_of_int 10" and budget: "attempts ?m < maxRetries ?m"
    by (simp_all add: sample_entry_def)
  have cond: "((1/20 :: real) < 0.1 \<and> 6 < maxRetries ?m) = True"
    by (simp add: sample_entry_def)
  have at: "attempts ?m + 1 = 6" by (simp add: sample_entry_def)
  have f: "fl (real_of_int 20 + 61000) = 61020"
    using fl_int [of 61020] by simp
  from processMessage_attempt(2) [OF q st due budget, of "1/20" 20 ?r]
  have pm: "queued (snd (processMessage (sample_queue ?m) (lit ''alice'') (lit ''m1'') 10 (1/20) 20 ?r))
        (lit ''alice'') (lit ''m1'')
      = Some (?m\<lparr>attempts := 6, nextRetryTime := 61020,
              QueuedMessage.error := Some (lit ''Network timeout''), updatedAt := 20\<rparr>)"
    by (simp only: at cond if_True d6 f)
  have q': "queued (sample_queue ?d) (lit ''alice'') (lit ''m1'') = Some ?d"
    by (simp add: queued_def sample_queue_def sample_entry_def)
  have st': "QueuedMessage.status ?d \<noteq> Sent" "QueuedMessage.status ?d \<noteq> Delivered"
    and due': "nextRetryTime ?d \<le> real_of_int 10" and budget': "attempts ?d < maxRetries ?d"
    by (simp_all add: sample_entry_def)
  have cond': "((1/20 :: real) < 0.1 \<and> 1 < maxRetries ?d) = True"
    by (simp add: sample_entry_def)
  have at': "attempts ?d + 1 = 1" by (simp add: sample_entry_def)
  have f': "fl (real_of_int 20 + 3000) = 3020"
    using fl_int [of 3020] by simp
  from processMessage_attempt(2) [OF q' st' due' budget', of "1/20" 20 ?r]
  have pd: "queued (snd (processMessage (sample_queue ?d) (lit ''alice'') (lit ''m1'') 10 (1/20) 20 ?r))
        (lit ''alice'') (lit ''m1'')
      = Some (?d\<lparr>attempts := 1, nextRetryTime := 3020,
              QueuedMessage.error := Some (lit ''Network timeout''), updatedAt := 20\<rparr>)"
    by (simp only: at' cond' if_True d1 f')
  have r: "(0::real) \<le> ?r" "?r < 1" by simp_all
  have n6: "\<not> getRetryDelay 6 ?r < 61000" by (simp only: d6 less_irrefl not_False_eq_True)
  have j1: "getRetryDelay 1 ?r - min (1000 * 2 ^ nat 1) 60000 = 1000"
    unfolding d1 m1 by simp
  from r d6 n6 j1 pd pm show ?thesis by (intro conjI)
qed

text \<open>
  C10. In a queue whose \<open>Map\<close> has each user once, \<open>retryMessage\<close> on an id that
  some entry has finds the first user with such an entry, sets that entry's status to
  \<open>pending\<close>, its \<open>nextRetryTime\<close> to the clock, its attempts to 0 and its error
  to none, whatever its status was, and then returns what \<open>processMessage\<close> does
  on the queue so changed; when the clock has not gone back and \<open>maxRetries\<close> is
  positive a send is attempted and the entry ends with one attempt. On an id that no
  entry has it returns \<open>false\<close> and changes nothing.
\<close>

theorem retryMessage_resets_entry:
  fixes draw :: real
  assumes "distinct (map fst (messages st))"
  shows "(present st mid \<longrightarrow>
      (\<exists>u ms i m st1.
         map_of (messages st) u = Some ms \<and> findIndex (\<lambda>m. id' m = mid) ms = Some i
         \<and> m = (ms ! i)\<lparr>QueuedMessage.status := Pending, nextRetryTime := real_of_int now,
                          attempts := 0, QueuedMessage.error := None\<rparr>
         \<and> st1 = st\<lparr>messages := AList.update u (ms[i := m]) (messages st)\<rparr>
         \<and> queued st1 u mid = Some m
         \<and> retryMessage st mid now now' draw later jitter
             = processMessage st1 u mid now' draw later jitter
         \<and> (now \<le> now' \<and> 0 < maxRetries m \<longrightarrow>
              (\<exists>m'. queued (snd (retryMessage st mid now now' draw later jitter)) u mid = Some m'
                 \<and> attempts m' = 1))))
    \<and> (\<not> present st mid \<longrightarrow> retryMessage st mid now now' draw later jitter = (False, st))"
proof (intro conjI impI)
  assume "\<not> present st mid"
  then have "retry_scan mid now (messages st) = None"
    by (simp add: retry_scan_None present_def)
  then show "retryMessage st mid now now' draw later jitter = (False, st)"
    by (simp add: retryMessage_def)
next
  assume "present st mid"
  then have "retry_scan mid now (messages st) \<noteq> None"
    by (simp add: retry_scan_None present_def)
  then obtain u al' where r: "retry_scan mid now (messages st) = Some (u, al')"
    by auto
  from retry_scan_Some [OF assms r] obtain ms i where ms: "map_of (messages st) u = Some ms"
    and i: "findIndex (\<lambda>m. id' m = mid) ms = Some i"
    and al': "al' = AList.update u (ms[i := reset_message now (ms ! i)]) (messages st)"
    by blast
  define m where "m = (ms ! i)\<lparr>QueuedMessage.status := Pending, nextRetryTime := real_of_int now,
                          attempts := 0, QueuedMessage.error := None\<rparr>"
  define st1 where "st1 = st\<lparr>messages := AList.update u (ms[i := m]) (messages st)\<rparr>"
  have rm: "reset_message now (ms ! i) = m" by (simp add: reset_message_def m_def)
  have idm: "id' m = mid" using findIndex_Some [OF i] by (simp add: m_def)
  have q: "queued st1 u mid = Some m"
    unfolding st1_def using i idm by (rule queued_update)
  have e: "retryMessage st mid now now' draw later jitter
      = processMessage st1 u mid now' draw later jitter"
    by (simp add: retryMessage_def r al' rm st1_def)
  have a: "now \<le> now' \<and> 0 < maxRetries m \<longrightarrow>
      (\<exists>m'. queued (snd (retryMessage st mid now now' draw later jitter)) u mid = Some m'
         \<and> attempts m' = 1)"
  proof
    assume h: "now \<le> now' \<and> 0 < maxRetries m"
    have s: "QueuedMessage.status m \<noteq> Sent" "QueuedMessage.status m \<noteq> Delivered"
      and d: "nextRetryTime m \<le> real_of_int now'" and n: "attempts m < maxRetries m"
      using h by (simp_all add: m_def)
    from processMessage_attempt(2) [OF q s d n, of draw later jitter]
    show "\<exists>m'. queued (snd (retryMessage st mid now now' draw later jitter)) u mid = Some m'
         \<and> attempts m' = 1"
      by (cases "draw < 0.1 \<and> attempts m + 1 < maxRetries m") (simp_all add: e m_def)
  qed
  show "\<exists>u ms i m st1.
         map_of (messages st) u = Some ms \<and> findIndex (\<lambda>m. id' m = mid) ms = Some i
         \<and> m = (ms ! i)\<lparr>QueuedMessage.status := Pending, nextRetryTime := real_of_int now,
                          attempts := 0, QueuedMessage.error := None\<rparr>
         \<and> st1 = st\<lparr>messages := AList.update u (ms[i := m]) (messages st)\<rparr>
         \<and> queued st1 u mid = Some m
         \<and> retryMessage st mid now now' draw later jitter
             = processMessage st1 u mid now' draw later jitter
         \<and> (now \<le> now' \<and> 0 < maxRetries m \<longrightarrow>
              (\<exists>m'. queued (snd (retryMessage st mid now now' draw later jitter)) u mid = Some m'
                 \<and> attempts m' = 1))"
    using ms i m_def st1_def q e a by blast
qed

theorem retryMessage_resets_entry_witness:
  "(\<exists>m'. queued (snd (retryMessage (sample_queue (sample_entry 5 5 9000 Failed)) (lit ''m1'')
        100 100 (1/2) 200 0)) (lit ''alice'') (lit ''m1'') = Some m'
      \<and> attempts m' = 1)
   \<and> retryMessage (sample_queue (sample_entry 5 5 9000 Failed)) (lit ''m2'') 100 100 (1/2) 200 0
      = (False, sample_queue (sample_entry 5 5 9000 Failed))"
proof -
  have d: "distinct (map fst (messages (sample_queue (sample_entry 5 5 9000 Failed))))"
    by (simp add: sample_queue_def)
  have p: "present (sample_queue (sample_entry 5 5 9000 Failed)) (lit ''m1'')"
    by (simp add: present_def sample_queue_def sample_entry_def)
  have np: "\<not> present (sample_queue (sample_entry 5 5 9000 Failed)) (lit ''m2'')"
    by (simp add: present_def sample_queue_def sample_entry_def lit_def unit_of_def)
  from retryMessage_resets_entry [OF d, of "lit ''m2''" 100 100 "1/2" 200 0] np
  have 2: "retryMessage (sample_queue (sample_entry 5 5 9000 Failed)) (lit ''m2'') 100 100 (1/2) 200 0
      = (False, sample_queue (sample_entry 5 5 9000 Failed))"
    by blast
  from retryMessage_resets_entry [OF d, of "lit ''m1''" 100 100 "1/2" 200 0] p
  obtain u ms m where
    ms: "map_of (messages (sample_queue (sample_entry 5 5 9000 Failed))) u = Some ms"
    and a: "(100::int) \<le> 100 \<and> 0 < maxRetries m \<longrightarrow>
      (\<exists>m'. queued (snd (retryMessage (sample_queue (sample_entry 5 5 9000 Failed)) (lit ''m1'')
        100 100 (1/2) 200 0)) u (lit ''m1'') = Some m' \<and> attempts m' = 1)"
    and m: "\<exists>i. m = (ms ! i)\<lparr>QueuedMessage.status := Pending, nextRetryTime := real_of_int 100,
                          attempts := 0, QueuedMessage.error := None\<rparr>
        \<and> findIndex (\<lambda>m. id' m = lit ''m1'') ms = Some i"
    by blast
  from ms have u: "u = lit ''alice''" "ms = [sample_entry 5 5 9000 Failed]"
    by (simp_all add: sample_queue_def split: if_splits)
  from m u have "maxRetries m = 5"
    by (auto simp: sample_entry_def)
  with a u have 1: "\<exists>m'. queued (snd (retryMessage (sample_queue (sample_entry 5 5 9000 Failed)) (lit ''m1'')
        100 100 (1/2) 200 0)) (lit ''alice'') (lit ''m1'') = Some m' \<and> attempts m' = 1"
    by simp
  from 1 2 show ?thesis by blast
qed

end
